theory Spec2Isabelle
  imports Main
begin

section \<open>Numbers and strings of the host language\<close>

text \<open>
  The script computes with the integers that the \<open>Date\<close> getters return, or with \<open>NaN\<close>
  when the date is invalid. A number is therefore an optional integer: \<open>None\<close> is \<open>NaN\<close>.
\<close>

type_synonym number = "int option"

definition nadd :: "number \<Rightarrow> int \<Rightarrow> number" where
  "nadd a b = (case a of None \<Rightarrow> None | Some x \<Rightarrow> Some (x + b))"

definition nsub :: "number \<Rightarrow> int \<Rightarrow> number" where
  "nsub a b = (case a of None \<Rightarrow> None | Some x \<Rightarrow> Some (x - b))"

definition digit_char :: "nat \<Rightarrow> char" where
  "digit_char n = ''0123456789'' ! n"

function nat_to_string :: "nat \<Rightarrow> string" where
  "nat_to_string n =
     (if n < 10 then [digit_char n] else nat_to_string (n div 10) @ [digit_char (n mod 10)])"
  by pat_completeness auto
termination
  by (relation "measure (\<lambda>n. n)") auto

declare nat_to_string.simps [simp del]

definition int_to_string :: "int \<Rightarrow> string" where
  "int_to_string i = (if i < 0 then CHR ''-'' # nat_to_string (nat (- i)) else nat_to_string (nat i))"

definition numToString :: "number \<Rightarrow> string" where
  "numToString a = (case a of None \<Rightarrow> ''NaN'' | Some i \<Rightarrow> int_to_string i)"

definition padStart :: "string \<Rightarrow> nat \<Rightarrow> char \<Rightarrow> string" where
  "padStart s n c = replicate (n - length s) c @ s"

text \<open>\<open>s.split(c)\<close> for a one-character separator: the pieces between the separators.\<close>

fun split_on :: "'a \<Rightarrow> 'a list \<Rightarrow> 'a list list" where
  "split_on c [] = [[]]"
| "split_on c (x # xs) =
     (if x = c then [] # split_on c xs
      else (case split_on c xs of [] \<Rightarrow> [[x]] | p # ps \<Rightarrow> (x # p) # ps))"

text \<open>
  The texts that the user types into a prompt, and the fields of an event made from them, are
  strings of the language: sequences of UTF-16 code units, here the list of their numbers
  (each below 65536). \<open>ascii\<close> gives the code units of a literal of the script, whose
  characters are all ASCII. The date-keys, which \<open>toDateKey\<close> builds from digits and
  dashes, and the strings of \<open>toISOString\<close> are kept as lists of characters.
\<close>

type_synonym jstring = "nat list"

definition ascii :: "string \<Rightarrow> jstring" where
  "ascii s = map of_char s"

text \<open>
  \<open>String.prototype.trim\<close> removes the white space and the line terminators of the
  language standard from both ends: TAB, LF, VT, FF, CR, SPACE, NO-BREAK SPACE, the other
  space separators of Unicode (U+1680, U+2000 to U+200A, U+202F, U+205F, U+3000), the line
  and paragraph separators U+2028 and U+2029, and the byte order mark U+FEFF.
\<close>

definition is_space :: "nat \<Rightarrow> bool" where
  "is_space c =
     (c \<in> set [0x0009, 0x000A, 0x000B, 0x000C, 0x000D, 0x0020, 0x00A0, 0x1680, 0x2028, 0x2029,
                0x202F, 0x205F, 0x3000, 0xFEFF]
      \<or> (0x2000 \<le> c \<and> c \<le> 0x200A))"

definition trim :: "jstring \<Rightarrow> jstring" where
  "trim s = rev (dropWhile is_space (rev (dropWhile is_space s)))"

text \<open>\<open>xs.indexOf(x)\<close>: the first index holding \<open>x\<close>, or \<open>-1\<close>.\<close>

fun indexOf :: "'a list \<Rightarrow> 'a \<Rightarrow> int" where
  "indexOf [] x = - 1"
| "indexOf (y # ys) x = (if y = x then 0 else (let i = indexOf ys x in if i < 0 then - 1 else i + 1))"

text \<open>\<open>xs.splice(i, 1)\<close> for an index inside the array.\<close>

definition splice1 :: "'a list \<Rightarrow> nat \<Rightarrow> 'a list" where
  "splice1 xs i = take i xs @ drop (Suc i) xs"

text \<open>
  The counting loops \<open>for (let d = a; d <= n; d++) acc.push(f(d))\<close> and
  \<open>for (let i = a; i >= 0; i--) acc.push(f(i))\<close>.
\<close>

function loop_up :: "(int \<Rightarrow> 'a) \<Rightarrow> int \<Rightarrow> int \<Rightarrow> 'a list \<Rightarrow> 'a list" where
  "loop_up f d n acc = (if d \<le> n then loop_up f (d + 1) n (acc @ [f d]) else acc)"
  by pat_completeness auto
termination
  by (relation "measure (\<lambda>(f, d, n, acc). nat (n + 1 - d))") auto

declare loop_up.simps [simp del]

function loop_down :: "(int \<Rightarrow> 'a) \<Rightarrow> int \<Rightarrow> 'a list \<Rightarrow> 'a list" where
  "loop_down f i acc = (if i \<ge> 0 then loop_down f (i - 1) (acc @ [f i]) else acc)"
  by pat_completeness auto
termination
  by (relation "measure (\<lambda>(f, i, acc). nat (i + 1))") auto

declare loop_down.simps [simp del]

section \<open>Dates\<close>

text \<open>
  A \<open>Date\<close> object holds a time value: milliseconds since 1970-01-01T00:00Z, or \<open>NaN\<close> for
  an Invalid Date. The functions below are the abstract operations of the language standard
  that \<open>new Date(y, m, d)\<close>, \<open>getFullYear\<close>, \<open>getMonth\<close>, \<open>getDate\<close>, \<open>getDay\<close> and
  \<open>toISOString\<close> are defined by. The time values and the fields of a date are integers,
  which the numbers of the language hold exactly in this range.
\<close>

type_synonym Date = "int option"

definition msPerDay :: int where
  "msPerDay = 86400000"

definition Day :: "int \<Rightarrow> int" where
  "Day t = t div msPerDay"

definition TimeWithinDay :: "int \<Rightarrow> int" where
  "TimeWithinDay t = t mod msPerDay"

definition DaysInYear :: "int \<Rightarrow> int" where
  "DaysInYear y =
     (if y mod 4 \<noteq> 0 then 365 else if y mod 100 \<noteq> 0 then 366
      else if y mod 400 \<noteq> 0 then 365 else 366)"

definition DayFromYear :: "int \<Rightarrow> int" where
  "DayFromYear y =
     365 * (y - 1970) + (y - 1969) div 4 - (y - 1901) div 100 + (y - 1601) div 400"

definition TimeFromYear :: "int \<Rightarrow> int" where
  "TimeFromYear y = msPerDay * DayFromYear y"

text \<open>
  \<open>YearFromTime(t)\<close> is the largest \<open>y\<close> with \<open>TimeFromYear(y) \<le> t\<close>. It is computed from an
  estimate that is off by at most one year.
\<close>

definition YearFromTime :: "int \<Rightarrow> int" where
  "YearFromTime t =
     (let d = Day t; y = 1970 + (400 * d) div 146097
      in if d < DayFromYear y then y - 1
         else if DayFromYear (y + 1) \<le> d then y + 1 else y)"

definition DayWithinYear :: "int \<Rightarrow> int" where
  "DayWithinYear t = Day t - DayFromYear (YearFromTime t)"

definition LeapFlag :: "int \<Rightarrow> int" where
  "LeapFlag y = (if DaysInYear y = 366 then 1 else 0)"

definition InLeapYear :: "int \<Rightarrow> int" where
  "InLeapYear t = LeapFlag (YearFromTime t)"

definition MonthFromTime :: "int \<Rightarrow> int" where
  "MonthFromTime t =
     (let d = DayWithinYear t; l = InLeapYear t
      in if d < 31 then 0
         else if d < 59 + l then 1
         else if d < 90 + l then 2
         else if d < 120 + l then 3
         else if d < 151 + l then 4
         else if d < 181 + l then 5
         else if d < 212 + l then 6
         else if d < 243 + l then 7
         else if d < 273 + l then 8
         else if d < 304 + l then 9
         else if d < 334 + l then 10
         else 11)"

definition DateFromTime :: "int \<Rightarrow> int" where
  "DateFromTime t =
     (let d = DayWithinYear t; l = InLeapYear t; m = MonthFromTime t
      in if m = 0 then d + 1
         else if m = 1 then d - 30
         else if m = 2 then d - 58 - l
         else if m = 3 then d - 89 - l
         else if m = 4 then d - 119 - l
         else if m = 5 then d - 150 - l
         else if m = 6 then d - 180 - l
         else if m = 7 then d - 211 - l
         else if m = 8 then d - 242 - l
         else if m = 9 then d - 272 - l
         else if m = 10 then d - 303 - l
         else d - 333 - l)"

definition WeekDay :: "int \<Rightarrow> int" where
  "WeekDay t = (Day t + 4) mod 7"

definition HourFromTime :: "int \<Rightarrow> int" where
  "HourFromTime t = (t div 3600000) mod 24"

definition MinFromTime :: "int \<Rightarrow> int" where
  "MinFromTime t = (t div 60000) mod 60"

definition SecFromTime :: "int \<Rightarrow> int" where
  "SecFromTime t = (t div 1000) mod 60"

definition msFromTime :: "int \<Rightarrow> int" where
  "msFromTime t = t mod 1000"

text \<open>The number of days before month \<open>mn\<close> (0 to 11) in a year with leap flag \<open>l\<close>.\<close>

definition DaysBeforeMonth :: "int \<Rightarrow> int \<Rightarrow> int" where
  "DaysBeforeMonth l mn =
     (if mn = 0 then 0
      else if mn = 1 then 31
      else if mn = 2 then 59 + l
      else if mn = 3 then 90 + l
      else if mn = 4 then 120 + l
      else if mn = 5 then 151 + l
      else if mn = 6 then 181 + l
      else if mn = 7 then 212 + l
      else if mn = 8 then 243 + l
      else if mn = 9 then 273 + l
      else if mn = 10 then 304 + l
      else 334 + l)"

text \<open>The length of month \<open>mn\<close> (0 to 11) in a year with leap flag \<open>l\<close>.\<close>

definition DaysInMonth :: "int \<Rightarrow> int \<Rightarrow> int" where
  "DaysInMonth l mn =
     (if mn = 1 then 28 + l
      else if mn = 3 \<or> mn = 5 \<or> mn = 8 \<or> mn = 10 then 30 else 31)"

text \<open>
  \<open>MakeDay(year, month, date)\<close>: the day number of the first of the month, found after
  carrying the month into the year, plus \<open>date - 1\<close>.
\<close>

definition MakeDay :: "int \<Rightarrow> int \<Rightarrow> int \<Rightarrow> int" where
  "MakeDay year month date =
     (let ym = year + month div 12; mn = month mod 12
      in DayFromYear ym + DaysBeforeMonth (LeapFlag ym) mn + date - 1)"

definition MakeDate :: "int \<Rightarrow> int \<Rightarrow> int" where
  "MakeDate day time = day * msPerDay + time"

definition MakeFullYear :: "int \<Rightarrow> int" where
  "MakeFullYear year = (if 0 \<le> year \<and> year \<le> 99 then 1900 + year else year)"

text \<open>
  The local time zone is a parameter \<open>z\<close>, the \<open>LocalTZA(t, isUTC)\<close> of the standard, in
  milliseconds: \<open>z t True\<close> is the offset of local time from UTC in force at the time
  value \<open>t\<close>, and \<open>z t False\<close> is the offset by which the local time \<open>t\<close> is
  interpreted (for a local time that a change of the clocks skips or repeats, the standard
  asks for the offset before the change). A zone without changes of the clocks is
  \<open>fixed_zone\<close> of its offset.
\<close>

type_synonym zone = "int \<Rightarrow> bool \<Rightarrow> int"

definition LocalTime :: "zone \<Rightarrow> int \<Rightarrow> int" where
  "LocalTime z t = t + z t True"

definition UTC :: "zone \<Rightarrow> int \<Rightarrow> int" where
  "UTC z t = t - z t False"

definition fixed_zone :: "int \<Rightarrow> zone" where
  "fixed_zone tza = (\<lambda>t isUTC. tza)"

definition TimeClip :: "int \<Rightarrow> Date" where
  "TimeClip t = (if \<bar>t\<bar> > 8640000000000000 then None else Some t)"

text \<open>
  \<open>new Date(year, month, date)\<close>: the time value of local midnight of that day as the zone
  interprets it, or an Invalid Date.
\<close>

definition newDate :: "zone \<Rightarrow> number \<Rightarrow> number \<Rightarrow> number \<Rightarrow> Date" where
  "newDate z year month date =
     (case (year, month, date) of
        (Some y, Some m, Some dt) \<Rightarrow> TimeClip (UTC z (MakeDate (MakeDay (MakeFullYear y) m dt) 0))
      | _ \<Rightarrow> None)"

definition getFullYear :: "zone \<Rightarrow> Date \<Rightarrow> number" where
  "getFullYear z date = map_option (\<lambda>t. YearFromTime (LocalTime z t)) date"

definition getMonth :: "zone \<Rightarrow> Date \<Rightarrow> number" where
  "getMonth z date = map_option (\<lambda>t. MonthFromTime (LocalTime z t)) date"

definition getDate :: "zone \<Rightarrow> Date \<Rightarrow> number" where
  "getDate z date = map_option (\<lambda>t. DateFromTime (LocalTime z t)) date"

definition getDay :: "zone \<Rightarrow> Date \<Rightarrow> number" where
  "getDay z date = map_option (\<lambda>t. WeekDay (LocalTime z t)) date"

definition pad_int :: "nat \<Rightarrow> int \<Rightarrow> string" where
  "pad_int n i = padStart (int_to_string i) n CHR ''0''"

datatype js_error = RangeError | TypeError | SyntaxError | DatabaseError

text \<open>
  \<open>toISOString\<close>: the UTC fields; a year outside 0..9999 is written with a sign and six
  digits; an Invalid Date throws.
\<close>

definition toISOString :: "Date \<Rightarrow> js_error + string" where
  "toISOString date =
     (case date of
        None \<Rightarrow> Inl RangeError
      | Some t \<Rightarrow>
          (let y = YearFromTime t;
               ys = (if 0 \<le> y \<and> y \<le> 9999 then pad_int 4 y
                     else (if y < 0 then CHR ''-'' else CHR ''+'') # pad_int 6 \<bar>y\<bar>)
           in Inr (ys @ ''-'' @ pad_int 2 (MonthFromTime t + 1) @ ''-'' @ pad_int 2 (DateFromTime t)
                   @ ''T'' @ pad_int 2 (HourFromTime t) @ '':'' @ pad_int 2 (MinFromTime t)
                   @ '':'' @ pad_int 2 (SecFromTime t) @ ''.'' @ pad_int 3 (msFromTime t) @ ''Z'')))"

text \<open>\<open>toDateKey\<close> (script, "format date as YYYY-MM-DD using local timezone").\<close>

definition toDateKey :: "zone \<Rightarrow> Date \<Rightarrow> string" where
  "toDateKey z date =
     (let y = getFullYear z date;
          m = padStart (numToString (nadd (getMonth z date) 1)) 2 CHR ''0'';
          d = padStart (numToString (getDate z date)) 2 CHR ''0''
      in numToString y @ ''-'' @ m @ ''-'' @ d)"

text \<open>\<open>buildCalendarDates\<close> (script): the visible days of the month grid.\<close>

definition buildCalendarDates :: "zone \<Rightarrow> int \<Rightarrow> int \<Rightarrow> Date list" where
  "buildCalendarDates z year month =
     (let dates0 = [];
          firstOfMonth = newDate z (Some year) (Some month) (Some 1);
          startDay = getDay z firstOfMonth;
          daysInPrevMonth = getDate z (newDate z (Some year) (Some month) (Some 0));
          dates1 = (case startDay of
                      None \<Rightarrow> dates0
                    | Some s \<Rightarrow>
                        loop_down (\<lambda>i. newDate z (Some year) (Some (month - 1)) (nsub daysInPrevMonth i))
                          (s - 1) dates0);
          daysInMonth = getDate z (newDate z (Some year) (Some (month + 1)) (Some 0));
          dates2 = (case daysInMonth of
                      None \<Rightarrow> dates1
                    | Some n \<Rightarrow> loop_up (\<lambda>d. newDate z (Some year) (Some month) (Some d)) 1 n dates1);
          nextDays = 42 - int (length dates2)
      in loop_up (\<lambda>n. newDate z (Some year) (Some (month + 1)) (Some n)) 1 nextDays dates2)"

text \<open>
  Days are numbered from 1970-01-01, as \<open>MakeDay\<close> numbers them. \<open>day_start z d\<close> is the
  \<open>Date\<close> that the constructor makes for a year, month and date that \<open>MakeDay\<close> takes to
  the day \<open>d\<close>; \<open>starts_day z d\<close> says that it is a valid date and a time of the local
  day \<open>d\<close> (it is not where the zone skips the whole day, or where the time is outside
  the range of the type). \<open>sunday_on_or_before d\<close> is the last Sunday not after the day
  \<open>d\<close>.
\<close>

definition day_start :: "zone \<Rightarrow> int \<Rightarrow> Date" where
  "day_start z d = TimeClip (UTC z (MakeDate d 0))"

definition starts_day :: "zone \<Rightarrow> int \<Rightarrow> bool" where
  "starts_day z d = (case day_start z d of None \<Rightarrow> False | Some t \<Rightarrow> Day (LocalTime z t) = d)"

definition sunday_on_or_before :: "int \<Rightarrow> int" where
  "sunday_on_or_before d = d - (d + 4) mod 7"

text \<open>
  Two zones with a change of the clocks. In Toronto the clocks went from 02:00 to 03:00 on
  9 March 2025 (07:00 UTC), from five to four hours behind UTC. In Apia the clocks went from
  the end of 29 December 2011 to the start of 31 December (10:00 UTC on 30 December), from
  ten hours behind UTC to fourteen hours ahead: the local day 30 December 2011 does not
  exist. Each function gives the offsets around its change only.
\<close>

definition toronto_2025 :: zone where
  "toronto_2025 t isUTC =
     (if isUTC then (if t < 1741503600000 then - 18000000 else - 14400000)
      else (if t < 1741489200000 then - 18000000 else - 14400000))"

definition apia_2011 :: zone where
  "apia_2011 t isUTC =
     (if isUTC then (if t < 1325239200000 then - 36000000 else 50400000)
      else (if t < 1325289600000 then - 36000000 else 50400000))"

section \<open>The weather fallback\<close>

record daily_forecast =
  time :: "string list"
  temperature_2m_max :: "int list"
  temperature_2m_min :: "int list"
  weathercode :: "int list"

record current_weather =
  cw_temperature :: int
  cw_weathercode :: int

section \<open>The event store of the page\<close>

text \<open>
  An event is an object with identity: the store holds references (indices into the heap of
  event objects), and \<open>indexOf\<close> compares references. A new object is the next index of
  the heap; the references of a store are indices below the length of the heap. The field
  \<open>end\<close> of the script is \<open>endTime\<close> here. The effects of a handler on the network and
  on the page (the request of \<open>saveEvents\<close>, the calls of the render functions) are kept
  in order in \<open>effects\<close>.
\<close>

record event =
  title :: jstring
  start :: jstring
  endTime :: jstring
  allDay :: bool
  color :: jstring

datatype effect =
    PostEvents string "string \<Rightarrow> event list option"
  | RenderPlanner
  | RenderCalendar
  | RenderWeather

record app_state =
  selectedDate :: Date
  currentUser :: "string option"
  forecast :: "daily_forecast option"
  currentWeather :: "current_weather option"
  lastWeatherUpdate :: Date
  locationName :: string
  STUB_EVENTS :: "string \<Rightarrow> nat list option"
  heap :: "event list"
  effects :: "effect list"

text \<open>
  One round of the loop of \<open>fallbackWeather\<close>, and the loop itself; \<open>toISOString\<close> may
  throw, which ends the function.
\<close>

definition codeOptions :: "int list" where
  "codeOptions = [1, 2, 3, 80, 0, 61, 95]"

definition fallback_body ::
  "zone \<Rightarrow> Date \<Rightarrow> int \<Rightarrow> string list \<times> int list \<times> int list \<times> int list
     \<Rightarrow> js_error + string list \<times> int list \<times> int list \<times> int list" where
  "fallback_body z now i acc =
     (case acc of (dummyTimes, maxTemps, minTemps, codes) \<Rightarrow>
        (let d = newDate z (getFullYear z now) (getMonth z now) (nadd (getDate z now) i)
         in case toISOString d of
              Inl e \<Rightarrow> Inl e
            | Inr isoString \<Rightarrow>
                Inr (dummyTimes @ [split_on CHR ''T'' isoString ! 0],
                     maxTemps @ [70 + i],
                     minTemps @ [50 + i],
                     codes @ [codeOptions ! nat (i mod int (length codeOptions))])))"

function fallback_loop ::
  "zone \<Rightarrow> Date \<Rightarrow> int \<Rightarrow> string list \<times> int list \<times> int list \<times> int list
     \<Rightarrow> js_error + string list \<times> int list \<times> int list \<times> int list" where
  "fallback_loop z now i acc =
     (if i < 7
      then (case fallback_body z now i acc of
              Inl e \<Rightarrow> Inl e
            | Inr acc' \<Rightarrow> fallback_loop z now (i + 1) acc')
      else Inr acc)"
  by pat_completeness auto
termination
  by (relation "measure (\<lambda>(z, now, i, acc). nat (7 - i))") auto

declare fallback_loop.simps [simp del]

definition renderWeather :: "app_state \<Rightarrow> app_state" where
  "renderWeather s = s\<lparr>effects := effects s @ [RenderWeather]\<rparr>"

text \<open>
  \<open>fallbackWeather\<close>: \<open>now\<close> and \<open>later\<close> are the two readings of the clock
  (\<open>new Date()\<close> at the start and at the end).
\<close>

definition fallbackWeather :: "zone \<Rightarrow> int \<Rightarrow> int \<Rightarrow> app_state \<Rightarrow> js_error + app_state" where
  "fallbackWeather z now later s =
     (case fallback_loop z (Some now) 0 ([], [], [], []) of
        Inl e \<Rightarrow> Inl e
      | Inr (dummyTimes, maxTemps, minTemps, codes) \<Rightarrow>
          Inr (renderWeather
                (s\<lparr>forecast := Some \<lparr>time = dummyTimes, temperature_2m_max = maxTemps,
                                     temperature_2m_min = minTemps, weathercode = codes\<rparr>,
                   currentWeather := Some \<lparr>cw_temperature = maxTemps ! 0,
                                           cw_weathercode = codes ! 0\<rparr>,
                   lastWeatherUpdate := Some later,
                   locationName := ''Kingston, ON''\<rparr>)))"

subsection \<open>Store operations and their handlers\<close>

definition eventsOn :: "app_state \<Rightarrow> string \<Rightarrow> nat list" where
  "eventsOn s key = (case STUB_EVENTS s key of None \<Rightarrow> [] | Some l \<Rightarrow> l)"

text \<open>What \<open>JSON.stringify(STUB_EVENTS)\<close> sends: every bucket with the events it refers to.\<close>

definition snapshot :: "app_state \<Rightarrow> string \<Rightarrow> event list option" where
  "snapshot s = (\<lambda>k. map_option (map (\<lambda>r. heap s ! r)) (STUB_EVENTS s k))"

text \<open>\<open>saveEvents\<close> with remote storage switched on: a request is sent and not awaited.\<close>

definition saveEvents :: "string option \<Rightarrow> app_state \<Rightarrow> app_state" where
  "saveEvents user s =
     (case user of
        None \<Rightarrow> s
      | Some u \<Rightarrow> if u = [] then s else s\<lparr>effects := effects s @ [PostEvents u (snapshot s)]\<rparr>)"

definition renderPlanner :: "app_state \<Rightarrow> app_state" where
  "renderPlanner s = s\<lparr>effects := effects s @ [RenderPlanner]\<rparr>"

definition renderCalendar :: "app_state \<Rightarrow> app_state" where
  "renderCalendar s = s\<lparr>effects := effects s @ [RenderCalendar]\<rparr>"

text \<open>The tail shared by the handlers: \<open>saveEvents(state.currentUser); renderPlanner(); renderCalendar();\<close>\<close>

definition save_and_render :: "app_state \<Rightarrow> app_state" where
  "save_and_render s = renderCalendar (renderPlanner (saveEvents (currentUser s) s))"

text \<open>
  The insertion of the add button: the bucket is created if absent, and a new event object
  is pushed. The new object is the next free reference of the heap.
\<close>

definition addEvent :: "string \<Rightarrow> event \<Rightarrow> app_state \<Rightarrow> app_state" where
  "addEvent dateKey ev s =
     (let s1 = (if STUB_EVENTS s dateKey = None
                then s\<lparr>STUB_EVENTS := (STUB_EVENTS s)(dateKey \<mapsto> [])\<rparr> else s);
          r = length (heap s1)
      in s1\<lparr>heap := heap s1 @ [ev],
            STUB_EVENTS := (STUB_EVENTS s1)(dateKey \<mapsto> eventsOn s1 dateKey @ [r])\<rparr>)"

definition planner_add_click ::
  "zone \<Rightarrow> jstring option \<Rightarrow> jstring option \<Rightarrow> app_state \<Rightarrow> app_state" where
  "planner_add_click z title_input timeRange s =
     (let dateKey = toDateKey z (selectedDate s)
      in case title_input of
           None \<Rightarrow> s
         | Some t \<Rightarrow>
             if t = [] then s
             else
               (let dflt = (ascii ''00:00'', ascii ''23:59'', True);
                    times =
                      (case timeRange of
                         None \<Rightarrow> dflt
                       | Some tr \<Rightarrow>
                           if tr \<noteq> [] \<and> of_char CHR ''-'' \<in> set tr
                           then (let parts = split_on (of_char CHR ''-'') tr
                                 in if length parts = 2
                                    then (trim (parts ! 0), trim (parts ! 1), False)
                                    else dflt)
                           else dflt)
                in case times of (st, en, ad) \<Rightarrow>
                     save_and_render
                       (addEvent dateKey
                          \<lparr>title = t, start = st, endTime = en, allDay = ad,
                            color = ascii ''#3EA6FF''\<rparr> s)))"

text \<open>
  The delete handlers of the chips and of the timed rows (the same code):
  look the event up by identity, splice it out if found, write the bucket back.
\<close>

definition removeEvent :: "string \<Rightarrow> nat \<Rightarrow> app_state \<Rightarrow> app_state" where
  "removeEvent key ev s =
     (let eventsForDay = eventsOn s key;
          idx = indexOf eventsForDay ev;
          eventsForDay' = (if idx > - 1 then splice1 eventsForDay (nat idx) else eventsForDay)
      in s\<lparr>STUB_EVENTS := (STUB_EVENTS s)(key \<mapsto> eventsForDay')\<rparr>)"

definition delete_click :: "string \<Rightarrow> nat \<Rightarrow> app_state \<Rightarrow> app_state" where
  "delete_click key ev s = save_and_render (removeEvent key ev s)"

definition set_title :: "event list \<Rightarrow> nat \<Rightarrow> jstring \<Rightarrow> event list" where
  "set_title h r t = h[r := (h ! r)\<lparr>title := t\<rparr>]"

definition set_times :: "event list \<Rightarrow> nat \<Rightarrow> jstring \<Rightarrow> jstring \<Rightarrow> event list" where
  "set_times h r st en = h[r := (h ! r)\<lparr>start := st, endTime := en\<rparr>]"

text \<open>
  The title prompt of the edit paths: \<open>None\<close> is a cancelled prompt. The title is set to
  the trimmed input when that is not empty and the event was found.
\<close>

definition title_step :: "event list \<Rightarrow> nat list \<Rightarrow> int \<Rightarrow> jstring option \<Rightarrow> event list" where
  "title_step h eventsForDay idx newTitle =
     (case newTitle of
        None \<Rightarrow> h
      | Some t \<Rightarrow>
          (let nt = trim t
           in if length nt > 0 \<and> idx > - 1 then set_title h (eventsForDay ! nat idx) nt else h))"

definition time_step :: "event list \<Rightarrow> nat list \<Rightarrow> int \<Rightarrow> jstring option \<Rightarrow> event list" where
  "time_step h eventsForDay idx timeInput =
     (case timeInput of
        None \<Rightarrow> h
      | Some ti \<Rightarrow>
          if length (trim ti) > 0 \<and> idx > - 1
          then (let parts = split_on (of_char CHR ''-'') ti
                in if length parts = 2
                   then set_times h (eventsForDay ! nat idx) (trim (parts ! 0)) (trim (parts ! 1))
                   else h)
          else h)"

text \<open>The edit icon of an all-day chip: it saves and renders only when it changed the title.\<close>

definition allday_edit_click :: "string \<Rightarrow> nat \<Rightarrow> jstring option \<Rightarrow> app_state \<Rightarrow> app_state" where
  "allday_edit_click key ev newTitle s =
     (let eventsForDay = eventsOn s key;
          idx = indexOf eventsForDay ev
      in case newTitle of
           None \<Rightarrow> s
         | Some t \<Rightarrow>
             (let nt = trim t
              in if length nt > 0 \<and> idx > - 1
                 then save_and_render
                        (s\<lparr>heap := set_title (heap s) (eventsForDay ! nat idx) nt,
                           STUB_EVENTS := (STUB_EVENTS s)(key \<mapsto> eventsForDay)\<rparr>)
                 else s))"

text \<open>The click on an all-day chip itself: a confirmation chooses between delete and edit.\<close>

definition allday_fallback_click ::
  "string \<Rightarrow> nat \<Rightarrow> bool \<Rightarrow> jstring option \<Rightarrow> app_state \<Rightarrow> app_state" where
  "allday_fallback_click key ev del newTitle s =
     (let eventsForDay = eventsOn s key;
          idx = indexOf eventsForDay ev
      in if del
         then save_and_render
                (s\<lparr>STUB_EVENTS := (STUB_EVENTS s)
                      (key \<mapsto> (if idx > - 1 then splice1 eventsForDay (nat idx) else eventsForDay))\<rparr>)
         else save_and_render
                (s\<lparr>heap := title_step (heap s) eventsForDay idx newTitle,
                   STUB_EVENTS := (STUB_EVENTS s)(key \<mapsto> eventsForDay)\<rparr>))"

text \<open>The edit icon of a timed row: the title prompt, then the time prompt, then always the tail.\<close>

definition timed_edit_click ::
  "string \<Rightarrow> nat \<Rightarrow> jstring option \<Rightarrow> jstring option \<Rightarrow> app_state \<Rightarrow> app_state" where
  "timed_edit_click key ev newTitle timeInput s =
     (let eventsForDay = eventsOn s key;
          idx = indexOf eventsForDay ev;
          h1 = title_step (heap s) eventsForDay idx newTitle;
          h2 = time_step h1 eventsForDay idx timeInput
      in save_and_render (s\<lparr>heap := h2, STUB_EVENTS := (STUB_EVENTS s)(key \<mapsto> eventsForDay)\<rparr>))"

definition timed_fallback_click ::
  "string \<Rightarrow> nat \<Rightarrow> bool \<Rightarrow> jstring option \<Rightarrow> jstring option \<Rightarrow> app_state \<Rightarrow> app_state" where
  "timed_fallback_click key ev del newTitle timeInput s =
     (let eventsForDay = eventsOn s key;
          idx = indexOf eventsForDay ev
      in if del
         then save_and_render
                (s\<lparr>STUB_EVENTS := (STUB_EVENTS s)
                      (key \<mapsto> (if idx > - 1 then splice1 eventsForDay (nat idx) else eventsForDay))\<rparr>)
         else (let h1 = title_step (heap s) eventsForDay idx newTitle;
                   h2 = time_step h1 eventsForDay idx timeInput
               in save_and_render
                    (s\<lparr>heap := h2, STUB_EVENTS := (STUB_EVENTS s)(key \<mapsto> eventsForDay)\<rparr>)))"

text \<open>
  The page starts with the built-in demonstration entries; the seven event objects are the
  references 0 to 6. \<open>now\<close> is the clock at load time.
\<close>

definition initial_heap :: "event list" where
  "initial_heap =
     [\<lparr>title = ascii ''Garbage, grey bin'', start = ascii ''00:00'', endTime = ascii ''23:59'', allDay = True, color = ascii ''#3EA6FF''\<rparr>,
      \<lparr>title = ascii ''Discovery Day'', start = ascii ''00:00'', endTime = ascii ''23:59'', allDay = True, color = ascii ''#3EA6FF''\<rparr>,
      \<lparr>title = ascii ''Team sync'', start = ascii ''09:00'', endTime = ascii ''10:00'', allDay = False, color = ascii ''#3EA6FF''\<rparr>,
      \<lparr>title = ascii ''Pick up groceries'', start = ascii ''15:00'', endTime = ascii ''16:00'', allDay = False, color = ascii ''#3EA6FF''\<rparr>,
      \<lparr>title = ascii ''Project review'', start = ascii ''14:00'', endTime = ascii ''15:00'', allDay = False, color = ascii ''#3EA6FF''\<rparr>,
      \<lparr>title = ascii ''Dentist Appointment'', start = ascii ''11:30'', endTime = ascii ''12:30'', allDay = False, color = ascii ''#3EA6FF''\<rparr>,
      \<lparr>title = ascii ''Yoga class'', start = ascii ''18:00'', endTime = ascii ''19:00'', allDay = False, color = ascii ''#3EA6FF''\<rparr>]"

definition initial_events :: "string \<Rightarrow> nat list option" where
  "initial_events =
     [''2025-08-18'' \<mapsto> [0, 1, 2, 3], ''2025-08-19'' \<mapsto> [4], ''2025-08-20'' \<mapsto> [5, 6]]"

definition initial_state :: "int \<Rightarrow> app_state" where
  "initial_state now =
     \<lparr>selectedDate = Some now, currentUser = None, forecast = None, currentWeather = None,
      lastWeatherUpdate = None, locationName = ''Kingston, ON'',
      STUB_EVENTS = initial_events, heap = initial_heap, effects = []\<rparr>"

text \<open>What the tail of a handler sends for the state it leaves: nothing when nobody is signed in.\<close>

definition save_request :: "app_state \<Rightarrow> effect list" where
  "save_request s =
     (case currentUser s of
        None \<Rightarrow> []
      | Some u \<Rightarrow> if u = [] then [] else [PostEvents u (snapshot s)])"

text \<open>
  The number of days of the month \<open>month\<close> of \<open>year\<close>, where \<open>month\<close> may lie outside
  0..11 and is carried into the year as \<open>MakeDay\<close> does.
\<close>

definition MonthDays :: "int \<Rightarrow> int \<Rightarrow> int" where
  "MonthDays year month = DaysInMonth (LeapFlag (year + month div 12)) (month mod 12)"

text \<open>A number from 0 to 99 written with exactly two digits.\<close>

definition two_digits :: "int \<Rightarrow> string" where
  "two_digits n = [digit_char (nat n div 10), digit_char (nat n mod 10)]"

section \<open>The account service and the event service\<close>

text \<open>
  The two tables of the database, in insertion order. \<open>id SERIAL\<close> is the counter of the
  table. A statement that the database rejects (a \<open>NULL\<close> in a \<open>NOT NULL\<close> column, a text
  that is not a date) throws.
\<close>

record user_row =
  uid :: nat
  username :: string
  password :: string

record event_row =
  eid :: nat
  user_id :: nat
  row_date :: int
  row_title :: string
  start_time :: string
  end_time :: string
  all_day :: bool
  row_color :: "string option"

record database =
  users :: "user_row list"
  events :: "event_row list"
  next_uid :: nat
  next_eid :: nat

text \<open>An event as it travels in JSON: a field that is absent is \<open>None\<close>.\<close>

record jevent =
  j_title :: "string option"
  j_start :: "string option"
  j_end :: "string option"
  j_allDay :: "bool option"
  j_color :: "string option"

datatype response_body =
    ErrorBody string
  | Thrown js_error
  | StatusBody string
  | EventsBody "(string \<times> jevent list) list"

record response =
  statusCode :: nat
  body :: response_body

text \<open>\<open>!x\<close> for a string field of a payload: absent or empty.\<close>

definition falsy :: "string option \<Rightarrow> bool" where
  "falsy x = (case x of None \<Rightarrow> True | Some s \<Rightarrow> s = [])"

subsection \<open>The account service\<close>

record auth_payload =
  action :: "string option"
  p_username :: "string option"
  p_password :: "string option"
  p_newPassword :: "string option"

text \<open>
  The body after \<open>JSON.parse(event.body || '{}')\<close>: text that does not parse, the value
  \<open>null\<close> (destructuring it throws, outside the \<open>try\<close>), or an object with its fields.
\<close>

datatype auth_body = AuthBadJSON | AuthNull | AuthPayload auth_payload

definition select_user :: "string \<Rightarrow> database \<Rightarrow> user_row list" where
  "select_user u db = filter (\<lambda>r. username r = u) (users db)"

definition insert_user :: "string \<Rightarrow> string option \<Rightarrow> database \<Rightarrow> js_error + nat \<times> database" where
  "insert_user u pw db =
     (case pw of
        None \<Rightarrow> Inl DatabaseError
      | Some p \<Rightarrow>
          if select_user u db \<noteq> [] then Inl DatabaseError
          else Inr (next_uid db,
                    db\<lparr>users := users db @ [\<lparr>uid = next_uid db, username = u, password = p\<rparr>],
                       next_uid := Suc (next_uid db)\<rparr>))"

definition update_password :: "nat \<Rightarrow> string \<Rightarrow> database \<Rightarrow> database" where
  "update_password i p db =
     db\<lparr>users := map (\<lambda>r. if uid r = i then r\<lparr>password := p\<rparr> else r) (users db)\<rparr>"

definition auth_handler :: "string \<Rightarrow> auth_body \<Rightarrow> database \<Rightarrow> (js_error + response) \<times> database" where
  "auth_handler method parsed db =
     (if method \<noteq> ''POST''
      then (Inr \<lparr>statusCode = 405, body = ErrorBody ''Method Not Allowed''\<rparr>, db)
      else case parsed of
        AuthBadJSON \<Rightarrow> (Inr \<lparr>statusCode = 400, body = ErrorBody ''Invalid JSON''\<rparr>, db)
      | AuthNull \<Rightarrow> (Inl TypeError, db)
      | AuthPayload payload \<Rightarrow>
          if falsy (action payload) \<or> falsy (p_username payload)
          then (Inr \<lparr>statusCode = 400, body = ErrorBody ''Missing parameters''\<rparr>, db)
          else
            (let u = the (p_username payload)
             in if action payload = Some ''signup''
                then (if select_user u db \<noteq> []
                      then (Inr \<lparr>statusCode = 400, body = ErrorBody ''User already exists''\<rparr>, db)
                      else case insert_user u (p_password payload) db of
                             Inl e \<Rightarrow> (Inr \<lparr>statusCode = 500, body = Thrown e\<rparr>, db)
                           | Inr (i, db') \<Rightarrow> (Inr \<lparr>statusCode = 200, body = StatusBody ''ok''\<rparr>, db'))
                else if action payload = Some ''login''
                then (case select_user u db of
                        [] \<Rightarrow> (Inr \<lparr>statusCode = 401, body = ErrorBody ''Invalid credentials''\<rparr>, db)
                      | r # _ \<Rightarrow>
                          if Some (password r) \<noteq> p_password payload
                          then (Inr \<lparr>statusCode = 401, body = ErrorBody ''Invalid credentials''\<rparr>, db)
                          else (Inr \<lparr>statusCode = 200, body = StatusBody ''ok''\<rparr>, db))
                else if action payload = Some ''changePassword''
                then (if falsy (p_password payload) \<or> falsy (p_newPassword payload)
                      then (Inr \<lparr>statusCode = 400, body = ErrorBody ''Missing password parameters''\<rparr>, db)
                      else case select_user u db of
                             [] \<Rightarrow> (Inr \<lparr>statusCode = 401, body = ErrorBody ''Invalid credentials''\<rparr>, db)
                           | r # _ \<Rightarrow>
                               if Some (password r) \<noteq> p_password payload
                               then (Inr \<lparr>statusCode = 401, body = ErrorBody ''Invalid credentials''\<rparr>, db)
                               else (Inr \<lparr>statusCode = 200, body = StatusBody ''ok''\<rparr>,
                                     update_password (uid r) (the (p_newPassword payload)) db))
                else (Inr \<lparr>statusCode = 400, body = ErrorBody ''Unknown action''\<rparr>, db)))"

subsection \<open>The event service\<close>

text \<open>
  The payload of \<open>POST /events\<close> after parsing. \<open>events\<close> is something whose \<open>typeof\<close> is
  not \<open>'object'\<close> (absent, a number, a string), or \<open>null\<close>, or an object, given by its
  entries in order. The value at a date-key is a list of items or something that cannot be
  iterated; an item is \<open>null\<close> or an object with the fields of an event.
\<close>

datatype item = ItemNull | Item jevent

datatype list_payload = NotIterable | Items "item list"

datatype events_payload = EvNotObject | EvNull | EvObject "(string \<times> list_payload) list"

datatype post_body = BodyUnparsable | BodyNull | Body "string option" events_payload

record events_request =
  httpMethod :: string
  query_user :: "string option"
  parsed_body :: post_body

text \<open>\<open>color || '#3EA6FF'\<close>\<close>

definition color_or_default :: "string option \<Rightarrow> string" where
  "color_or_default c = (case c of None \<Rightarrow> ''#3EA6FF'' | Some s \<Rightarrow> if s = [] then ''#3EA6FF'' else s)"

text \<open>
  One \<open>INSERT INTO events\<close>. \<open>date_in\<close> is the conversion of the database from the text
  of the date-key to a date (a day number), \<open>None\<close> where the database rejects the text.
\<close>

definition insert_event ::
  "(string \<Rightarrow> int option) \<Rightarrow> nat \<Rightarrow> string \<Rightarrow> jevent \<Rightarrow> database \<Rightarrow> js_error + database" where
  "insert_event date_in userId dateKey ev db =
     (case (date_in dateKey, j_title ev, j_start ev, j_end ev, j_allDay ev) of
        (Some d, Some t, Some st, Some en, Some ad) \<Rightarrow>
          Inr (db\<lparr>events := events db @
                     [\<lparr>eid = next_eid db, user_id = userId, row_date = d, row_title = t,
                       start_time = st, end_time = en, all_day = ad,
                       row_color = Some (color_or_default (j_color ev))\<rparr>],
                  next_eid := Suc (next_eid db)\<rparr>)
      | _ \<Rightarrow> Inl DatabaseError)"

text \<open>
  The two nested loops of the insertion. A throw ends them; what was inserted before stays
  (there is no transaction), so the database comes back in both cases.
\<close>

fun insert_list ::
  "(string \<Rightarrow> int option) \<Rightarrow> nat \<Rightarrow> string \<Rightarrow> item list \<Rightarrow> database
     \<Rightarrow> js_error option \<times> database" where
  "insert_list date_in userId dateKey [] db = (None, db)"
| "insert_list date_in userId dateKey (ev # rest) db =
     (case ev of
        ItemNull \<Rightarrow> (Some TypeError, db)
      | Item e \<Rightarrow>
          (case insert_event date_in userId dateKey e db of
             Inl err \<Rightarrow> (Some err, db)
           | Inr db' \<Rightarrow> insert_list date_in userId dateKey rest db'))"

fun insert_entries ::
  "(string \<Rightarrow> int option) \<Rightarrow> nat \<Rightarrow> (string \<times> list_payload) list \<Rightarrow> database
     \<Rightarrow> js_error option \<times> database" where
  "insert_entries date_in userId [] db = (None, db)"
| "insert_entries date_in userId ((dateKey, l) # rest) db =
     (case l of
        NotIterable \<Rightarrow> (Some TypeError, db)
      | Items evs \<Rightarrow>
          (case insert_list date_in userId dateKey evs db of
             (Some err, db') \<Rightarrow> (Some err, db')
           | (None, db') \<Rightarrow> insert_entries date_in userId rest db'))"

text \<open>"Get or create user": the id of the user, and the database with the user in it.\<close>

definition get_or_create_user :: "string \<Rightarrow> database \<Rightarrow> nat \<times> database" where
  "get_or_create_user u db =
     (case select_user u db of
        [] \<Rightarrow> (next_uid db,
               db\<lparr>users := users db @ [\<lparr>uid = next_uid db, username = u, password = []\<rparr>],
                  next_uid := Suc (next_uid db)\<rparr>)
      | r # _ \<Rightarrow> (uid r, db))"

definition delete_events_of :: "nat \<Rightarrow> database \<Rightarrow> database" where
  "delete_events_of userId db = db\<lparr>events := filter (\<lambda>r. user_id r \<noteq> userId) (events db)\<rparr>"

definition post_events ::
  "(string \<Rightarrow> int option) \<Rightarrow> post_body \<Rightarrow> database \<Rightarrow> response \<times> database" where
  "post_events date_in parsed db =
     (case parsed of
        BodyUnparsable \<Rightarrow> (\<lparr>statusCode = 500, body = Thrown SyntaxError\<rparr>, db)
      | BodyNull \<Rightarrow> (\<lparr>statusCode = 500, body = Thrown TypeError\<rparr>, db)
      | Body user evs \<Rightarrow>
          if falsy user \<or> evs = EvNotObject
          then (\<lparr>statusCode = 400, body = ErrorBody ''Invalid payload''\<rparr>, db)
          else
            (case get_or_create_user (the user) db of (userId, db1) \<Rightarrow>
               (let db2 = delete_events_of userId db1
                in case evs of
                     EvObject entries \<Rightarrow>
                       (case insert_entries date_in userId entries db2 of
                          (Some err, db3) \<Rightarrow> (\<lparr>statusCode = 500, body = Thrown err\<rparr>, db3)
                        | (None, db3) \<Rightarrow> (\<lparr>statusCode = 200, body = StatusBody ''saved''\<rparr>, db3))
                   | _ \<Rightarrow> (\<lparr>statusCode = 500, body = Thrown TypeError\<rparr>, db2))))"

definition row_event :: "event_row \<Rightarrow> jevent" where
  "row_event row =
     \<lparr>j_title = Some (row_title row), j_start = Some (start_time row), j_end = Some (end_time row),
      j_allDay = Some (all_day row), j_color = row_color row\<rparr>"

text \<open>
  The loop of \<open>GET /events\<close> over the rows: the bucket of the date-key is created at the end
  of the object if absent, and the event is pushed. \<open>date_out\<close> is the \<open>Date\<close> the driver
  returns for a date of the database.
\<close>

definition push_event ::
  "string \<Rightarrow> jevent \<Rightarrow> (string \<times> jevent list) list \<Rightarrow> (string \<times> jevent list) list" where
  "push_event dateKey ev m =
     (let m1 = (if map_of m dateKey = None then m @ [(dateKey, [])] else m)
      in map (\<lambda>(k, l). if k = dateKey then (k, l @ [ev]) else (k, l)) m1)"

fun group_rows ::
  "(int \<Rightarrow> Date) \<Rightarrow> event_row list \<Rightarrow> (string \<times> jevent list) list
     \<Rightarrow> js_error + (string \<times> jevent list) list" where
  "group_rows date_out [] m = Inr m"
| "group_rows date_out (row # rows) m =
     (case toISOString (date_out (row_date row)) of
        Inl e \<Rightarrow> Inl e
      | Inr isoString \<Rightarrow>
          group_rows date_out rows (push_event (split_on CHR ''T'' isoString ! 0) (row_event row) m))"

definition get_events :: "(int \<Rightarrow> Date) \<Rightarrow> string option \<Rightarrow> database \<Rightarrow> response" where
  "get_events date_out user db =
     (if falsy user
      then \<lparr>statusCode = 400, body = ErrorBody ''Missing user parameter''\<rparr>
      else case select_user (the user) db of
             [] \<Rightarrow> \<lparr>statusCode = 200, body = EventsBody []\<rparr>
           | r # _ \<Rightarrow>
               (case group_rows date_out (filter (\<lambda>row. user_id row = uid r) (events db)) [] of
                  Inl e \<Rightarrow> \<lparr>statusCode = 500, body = Thrown e\<rparr>
                | Inr eventsMap \<Rightarrow> \<lparr>statusCode = 200, body = EventsBody eventsMap\<rparr>))"

definition events_handler ::
  "(string \<Rightarrow> int option) \<Rightarrow> (int \<Rightarrow> Date) \<Rightarrow> events_request \<Rightarrow> database
     \<Rightarrow> response \<times> database" where
  "events_handler date_in date_out event db =
     (if httpMethod event = ''GET'' then (get_events date_out (query_user event) db, db)
      else if httpMethod event = ''POST'' then post_events date_in (parsed_body event) db
      else (\<lparr>statusCode = 405, body = ErrorBody ''Method Not Allowed''\<rparr>, db))"

text \<open>
  The conversions of a database and a driver, used to run the handlers on examples. The
  database takes the text \<open>YYYY-MM-DD\<close> of a day (four digits, two, two; a month from 1 to
  12 and a day of that month) as that day. The driver gives a stored day as the \<open>Date\<close>
  of its local midnight in the time zone of the host, as \<open>new Date(y, m, d)\<close> does: that is
  \<open>day_start\<close> of the zone of the host, and \<open>utc_midnight\<close> on a host whose zone is UTC.
\<close>

definition digit_value :: "char \<Rightarrow> int option" where
  "digit_value c = (let i = indexOf ''0123456789'' c in if i < 0 then None else Some i)"

fun digits_value :: "string \<Rightarrow> int option" where
  "digits_value [] = None"
| "digits_value [c] = digit_value c"
| "digits_value (c # cs) =
     (case (digit_value c, digits_value cs) of
        (Some a, Some b) \<Rightarrow> Some (a * 10 ^ length cs + b)
      | _ \<Rightarrow> None)"

definition iso_date_in :: "string \<Rightarrow> int option" where
  "iso_date_in s =
     (if length s = 10 \<and> s ! 4 = CHR ''-'' \<and> s ! 7 = CHR ''-''
      then (case (digits_value (take 4 s), digits_value (take 2 (drop 5 s)), digits_value (drop 8 s)) of
              (Some y, Some m, Some d) \<Rightarrow>
                if 1 \<le> y \<and> 1 \<le> m \<and> m \<le> 12 \<and> 1 \<le> d \<and> d \<le> MonthDays y (m - 1)
                then Some (MakeDay y (m - 1) d) else None
            | _ \<Rightarrow> None)
      else None)"

definition utc_midnight :: "int \<Rightarrow> Date" where
  "utc_midnight d = TimeClip (d * msPerDay)"


text \<open>The password stored for a user name, if the user exists.\<close>

definition stored_password :: "string \<Rightarrow> database \<Rightarrow> string option" where
  "stored_password u db = (case select_user u db of [] \<Rightarrow> None | r # _ \<Rightarrow> Some (password r))"

text \<open>A database with the user \<open>alice\<close>, and one where \<open>bob\<close> has a stored event.\<close>

definition alice_database :: database where
  "alice_database =
     \<lparr>users = [\<lparr>uid = 1, username = ''alice'', password = ''secret123''\<rparr>], events = [],
      next_uid = 2, next_eid = 1\<rparr>"

definition bob_database :: database where
  "bob_database =
     \<lparr>users = [\<lparr>uid = 1, username = ''alice'', password = ''secret123''\<rparr>,
               \<lparr>uid = 2, username = ''bob'', password = []\<rparr>],
      events = [\<lparr>eid = 1, user_id = 2, row_date = 20318, row_title = ''X'', start_time = ''09:00'',
                 end_time = ''10:00'', all_day = False, row_color = Some ''#3EA6FF''\<rparr>],
      next_uid = 3, next_eid = 2\<rparr>"

text \<open>An events mapping \<open>M\<close> as the payload it is sent as.\<close>

definition payload_of :: "(string \<times> jevent list) list \<Rightarrow> events_payload" where
  "payload_of M = EvObject (map (\<lambda>(k, l). (k, Items (map Item l))) M)"

text \<open>The events mapping of the scenario: one event for \<open>bob\<close> on 2025-08-18, without a color.\<close>

definition bob_events :: "(string \<times> jevent list) list" where
  "bob_events =
     [(''2025-08-18'',
       [\<lparr>j_title = Some ''X'', j_start = Some ''09:00'', j_end = Some ''10:00'',
         j_allDay = Some False, j_color = None\<rparr>])]"

text \<open>The same with a second event on that day, which has a color.\<close>

definition bob_color_events :: "(string \<times> jevent list) list" where
  "bob_color_events =
     [(''2025-08-18'',
       [\<lparr>j_title = Some ''X'', j_start = Some ''09:00'', j_end = Some ''10:00'',
         j_allDay = Some False, j_color = None\<rparr>,
        \<lparr>j_title = Some ''Y'', j_start = Some ''11:00'', j_end = Some ''12:00'',
         j_allDay = Some False, j_color = Some ''#FF5722''\<rparr>])]"

section \<open>Properties of the date functions\<close>

lemma int_div_bounds:
  fixes x n :: int
  assumes "0 < n"
  shows "n * (x div n) \<le> x" and "x < n * (x div n) + n"
proof -
  have "x = n * (x div n) + x mod n" by simp
  moreover have "0 \<le> x mod n" "x mod n < n" using assms by simp_all
  ultimately show "n * (x div n) \<le> x" and "x < n * (x div n) + n" by linarith+
qed

lemma int_div_unique:
  fixes x n q :: int
  assumes "n * q \<le> x" "x < n * q + n"
  shows "x div n = q"
proof -
  have n: "0 < n" using assms by linarith
  have "x = n * q + (x - n * q)" by simp
  then show ?thesis
    using assms n by (metis add.commute diff_ge_0_iff_ge diff_less_eq int_div_pos_eq)
qed

lemma int_div_succ:
  fixes x n :: int
  assumes n: "0 < n"
  shows "(x + 1) div n = (if (x + 1) mod n = 0 then x div n + 1 else x div n)"
proof -
  define q where "q = x div n"
  have b: "n * q \<le> x" "x < n * q + n"
    unfolding q_def using int_div_bounds [OF n, of x] by simp_all
  show ?thesis
  proof (cases "x + 1 = n * q + n")
    case True
    then have e: "x + 1 = n * (q + 1)" by (simp add: algebra_simps)
    then have "(x + 1) div n = q + 1" "(x + 1) mod n = 0" using n by simp_all
    then show ?thesis by (simp add: q_def)
  next
    case False
    then have lt: "x + 1 < n * q + n" using b by linarith
    have d: "(x + 1) div n = q"
      by (rule int_div_unique) (use b lt in linarith)+
    have "(x + 1) mod n = x + 1 - n * q"
      using d by (metis minus_mult_div_eq_mod)
    then have "(x + 1) mod n \<noteq> 0" using b by linarith
    then show ?thesis using d by (simp add: q_def)
  qed
qed

lemma mod_shift: "(y - n * k) mod n = y mod (n::int)"
  using mod_mult_self2 [of y n "- k"] by simp

lemma leap_mod_400_100: "(y::int) mod 400 = 0 \<Longrightarrow> y mod 100 = 0"
proof -
  assume "y mod 400 = 0"
  then have "400 dvd y" by (simp add: mod_eq_0_iff_dvd)
  moreover have "(100::int) dvd 400" by simp
  ultimately have "100 dvd y" by (rule dvd_trans [rotated])
  then show ?thesis by (simp add: mod_eq_0_iff_dvd)
qed

lemma DayFromYear_Suc: "DayFromYear (y + 1) = DayFromYear y + DaysInYear y"
proof -
  have a: "(y - 1968) div 4 = (y - 1969) div 4 + (if y mod 4 = 0 then 1 else 0)"
    using int_div_succ [of 4 "y - 1969"] mod_shift [of y 4 492] by simp
  have b: "(y - 1900) div 100 = (y - 1901) div 100 + (if y mod 100 = 0 then 1 else 0)"
    using int_div_succ [of 100 "y - 1901"] mod_shift [of y 100 19] by simp
  have c: "(y - 1600) div 400 = (y - 1601) div 400 + (if y mod 400 = 0 then 1 else 0)"
    using int_div_succ [of 400 "y - 1601"] mod_shift [of y 400 4] by simp
  have e: "y + 1 - 1969 = y - 1968" "y + 1 - 1901 = y - 1900" "y + 1 - 1601 = y - 1600"
    by simp_all
  have i1: "y mod 100 = 0 \<Longrightarrow> y mod 4 = 0" 
  proof -
    assume "y mod 100 = 0"
    then have "100 dvd y" by (simp add: mod_eq_0_iff_dvd)
    moreover have "(4::int) dvd 100" by simp
    ultimately have "4 dvd y" by (rule dvd_trans [rotated])
    then show ?thesis by (simp add: mod_eq_0_iff_dvd)
  qed
  have i2: "y mod 400 = 0 \<Longrightarrow> y mod 100 = 0" by (rule leap_mod_400_100)
  show ?thesis
    unfolding DayFromYear_def DaysInYear_def e a b c
    using i1 i2 by auto
qed

lemma est_lo_aux:
  fixes Y d q4 q100 q400 :: int
  assumes "146097 * Y \<le> 400 * d" "4 * q4 \<le> Y" "Y + 68 < 100 * q100 + 100" "400 * q400 \<le> Y + 368"
  shows "365 * (Y - 1) + q4 - q100 + q400 \<le> d"
proof -
  have "365 * Y - 365 + q4 - q100 + q400 \<le> d" using assms by linarith
  then show ?thesis by (simp add: algebra_simps)
qed

lemma est_hi_aux:
  fixes Y d q4 q100 q400 :: int
  assumes "400 * d < 146097 * Y + 146097" "Y + 3 < 4 * q4 + 4" "100 * q100 \<le> Y + 71"
    "Y + 371 < 400 * q400 + 400"
  shows "d < 365 * (Y + 2) + q4 - q100 + q400"
proof -
  have "d < 365 * Y + 730 + q4 - q100 + q400" using assms by linarith
  then show ?thesis by (simp add: algebra_simps)
qed

lemma DayFromYear_est_lo: "DayFromYear (1970 + (400 * d) div 146097 - 1) \<le> d"
proof -
  define Y where "Y = (400 * d) div 146097"
  have e: "1970 + Y - 1 - 1970 = Y - 1" "1970 + Y - 1 - 1969 = Y" "1970 + Y - 1 - 1901 = Y + 68"
    "1970 + Y - 1 - 1601 = Y + 368" by simp_all
  have "365 * (Y - 1) + Y div 4 - (Y + 68) div 100 + (Y + 368) div 400 \<le> d"
  proof (rule est_lo_aux)
    show "146097 * Y \<le> 400 * d" unfolding Y_def by (rule int_div_bounds) simp
    show "4 * (Y div 4) \<le> Y" by (rule int_div_bounds) simp
    show "Y + 68 < 100 * ((Y + 68) div 100) + 100" by (rule int_div_bounds) simp
    show "400 * ((Y + 368) div 400) \<le> Y + 368" by (rule int_div_bounds) simp
  qed
  then show ?thesis unfolding DayFromYear_def Y_def [symmetric] e .
qed

lemma DayFromYear_est_hi: "d < DayFromYear (1970 + (400 * d) div 146097 + 2)"
proof -
  define Y where "Y = (400 * d) div 146097"
  have e: "1970 + Y + 2 - 1970 = Y + 2" "1970 + Y + 2 - 1969 = Y + 3" "1970 + Y + 2 - 1901 = Y + 71"
    "1970 + Y + 2 - 1601 = Y + 371" by simp_all
  have "d < 365 * (Y + 2) + (Y + 3) div 4 - (Y + 71) div 100 + (Y + 371) div 400"
  proof (rule est_hi_aux)
    show "400 * d < 146097 * Y + 146097" unfolding Y_def by (rule int_div_bounds) simp
    show "Y + 3 < 4 * ((Y + 3) div 4) + 4" by (rule int_div_bounds) simp
    show "100 * ((Y + 71) div 100) \<le> Y + 71" by (rule int_div_bounds) simp
    show "Y + 371 < 400 * ((Y + 371) div 400) + 400" by (rule int_div_bounds) simp
  qed
  then show ?thesis unfolding DayFromYear_def Y_def [symmetric] e .
qed

lemma DaysInYear_pos: "365 \<le> DaysInYear y" "DaysInYear y \<le> 366"
  by (simp_all add: DaysInYear_def)

lemma YearFromTime_bounds:
  "DayFromYear (YearFromTime t) \<le> Day t" "Day t < DayFromYear (YearFromTime t + 1)"
proof -
  define y where "y = 1970 + (400 * Day t) div 146097"
  have lo: "DayFromYear (y - 1) \<le> Day t" unfolding y_def by (rule DayFromYear_est_lo)
  have hi: "Day t < DayFromYear (y + 2)" unfolding y_def by (rule DayFromYear_est_hi)
  have s: "y - 1 + 1 = y" "y + 1 + 1 = y + 2" by simp_all
  have Y: "YearFromTime t = (if Day t < DayFromYear y then y - 1
         else if DayFromYear (y + 1) \<le> Day t then y + 1 else y)"
    by (simp add: YearFromTime_def Let_def y_def)
  show "DayFromYear (YearFromTime t) \<le> Day t" using lo by (simp add: Y)
  show "Day t < DayFromYear (YearFromTime t + 1)" using hi by (auto simp add: Y s)
qed

text \<open>The computed year is the one the standard defines: the largest whose start is not after \<open>t\<close>.\<close>

lemma YearFromTime_largest:
  "TimeFromYear (YearFromTime t) \<le> t" "t < TimeFromYear (YearFromTime t + 1)"
proof -
  note b = YearFromTime_bounds [of t]
  have m: "(0::int) < msPerDay" by (simp add: msPerDay_def)
  note d = int_div_bounds [OF m, of t, folded Day_def]
  have "msPerDay * DayFromYear (YearFromTime t) \<le> msPerDay * Day t"
    using b(1) m by simp
  then show "TimeFromYear (YearFromTime t) \<le> t"
    using d(1) by (simp add: TimeFromYear_def)
  have "Day t + 1 \<le> DayFromYear (YearFromTime t + 1)" using b(2) by simp
  then have "msPerDay * (Day t + 1) \<le> msPerDay * DayFromYear (YearFromTime t + 1)"
    using m by simp
  then show "t < TimeFromYear (YearFromTime t + 1)"
    using d(2) by (simp add: TimeFromYear_def algebra_simps)
qed

lemma DayFromYear_mono_aux: "0 \<le> k \<Longrightarrow> DayFromYear y + 365 * k \<le> DayFromYear (y + k)"
proof (induction k rule: int_ge_induct)
  case base
  then show ?case by simp
next
  case (step i)
  have "DayFromYear (y + (i + 1)) = DayFromYear (y + i) + DaysInYear (y + i)"
    using DayFromYear_Suc [of "y + i"] by (simp add: add.assoc)
  then show ?case using step DaysInYear_pos(1) [of "y + i"] by (simp add: algebra_simps)
qed

lemma DayFromYear_strict_mono: "y < y' \<Longrightarrow> DayFromYear y < DayFromYear y'"
  using DayFromYear_mono_aux [of "y' - y" y] by simp

lemma DayFromYear_mono: "y \<le> y' \<Longrightarrow> DayFromYear y \<le> DayFromYear y'"
  using DayFromYear_mono_aux [of "y' - y" y] by simp

lemma YearFromTime_unique:
  assumes "DayFromYear y \<le> Day t" "Day t < DayFromYear (y + 1)"
  shows "YearFromTime t = y"
proof (rule ccontr)
  assume ne: "YearFromTime t \<noteq> y"
  note b = YearFromTime_bounds [of t]
  show False
  proof (cases "YearFromTime t < y")
    case True
    then have "DayFromYear (YearFromTime t + 1) \<le> DayFromYear y"
      by (intro DayFromYear_mono) simp
    then show False using b assms by linarith
  next
    case False
    then have "DayFromYear (y + 1) \<le> DayFromYear (YearFromTime t)"
      using ne by (intro DayFromYear_mono) simp
    then show False using b assms by linarith
  qed
qed

lemma LeapFlag_cases: "LeapFlag y = 0 \<or> LeapFlag y = 1"
  by (simp add: LeapFlag_def)

lemma DaysInYear_LeapFlag: "DaysInYear y = 365 + LeapFlag y"
  by (simp add: LeapFlag_def DaysInYear_def)

lemma month_cases:
  fixes mn :: int
  assumes "0 \<le> mn" "mn \<le> 11"
  shows "mn = 0 \<or> mn = 1 \<or> mn = 2 \<or> mn = 3 \<or> mn = 4 \<or> mn = 5 \<or> mn = 6 \<or> mn = 7
       \<or> mn = 8 \<or> mn = 9 \<or> mn = 10 \<or> mn = 11"
  using assms by arith

lemma DaysBeforeMonth_next:
  assumes "0 \<le> mn" "mn \<le> 11" "l = 0 \<or> l = 1"
  shows "DaysBeforeMonth l mn + DaysInMonth l mn = (if mn = 11 then 365 + l else DaysBeforeMonth l (mn + 1))"
  using month_cases [OF assms(1,2)] assms(3)
  by (elim disjE) (simp_all add: DaysBeforeMonth_def DaysInMonth_def)

lemma DaysBeforeMonth_bounds:
  assumes "0 \<le> mn" "mn \<le> 11" "l = 0 \<or> l = 1"
  shows "0 \<le> DaysBeforeMonth l mn" "DaysBeforeMonth l mn + DaysInMonth l mn \<le> 365 + l"
  using month_cases [OF assms(1,2)] assms(3)
  by (elim disjE; simp add: DaysBeforeMonth_def DaysInMonth_def)+

lemma DaysInMonth_bounds:
  assumes "l = 0 \<or> l = 1"
  shows "28 \<le> DaysInMonth l mn" "DaysInMonth l mn \<le> 31"
  using assms by (auto simp: DaysInMonth_def)

lemma month_of_day_within_year:
  assumes mn: "0 \<le> mn" "mn \<le> 11" and l: "l = 0 \<or> l = 1"
    and dt: "1 \<le> dt" "dt \<le> DaysInMonth l mn"
    and d: "d = DaysBeforeMonth l mn + dt - 1"
  shows "(if d < 31 then 0
         else if d < 59 + l then 1
         else if d < 90 + l then 2
         else if d < 120 + l then 3
         else if d < 151 + l then 4
         else if d < 181 + l then 5
         else if d < 212 + l then 6
         else if d < 243 + l then 7
         else if d < 273 + l then 8
         else if d < 304 + l then 9
         else if d < 334 + l then 10
         else 11) = mn"
  using month_cases [OF mn] l dt unfolding d
  by (elim disjE; simp add: DaysBeforeMonth_def DaysInMonth_def)

lemma decode_day:
  assumes mn: "0 \<le> mn" "mn \<le> 11"
    and dt: "1 \<le> dt" "dt \<le> DaysInMonth (LeapFlag y) mn"
    and D: "Day t = DayFromYear y + DaysBeforeMonth (LeapFlag y) mn + dt - 1"
  shows "YearFromTime t = y" and "MonthFromTime t = mn" and "DateFromTime t = dt"
proof -
  define l where "l = LeapFlag y"
  have l: "l = 0 \<or> l = 1" unfolding l_def by (rule LeapFlag_cases)
  note b = DaysBeforeMonth_bounds [OF mn l]
  have Y: "YearFromTime t = y"
  proof (rule YearFromTime_unique)
    show "DayFromYear y \<le> Day t" using D b(1) dt(1) by (simp add: l_def)
    show "Day t < DayFromYear (y + 1)"
      using D b(2) dt(2) by (simp add: DayFromYear_Suc DaysInYear_LeapFlag l_def)
  qed
  have W: "DayWithinYear t = DaysBeforeMonth l mn + dt - 1"
    by (simp add: DayWithinYear_def Y D l_def)
  have I: "InLeapYear t = l" by (simp add: InLeapYear_def Y l_def)
  have M: "MonthFromTime t = mn"
    unfolding MonthFromTime_def Let_def I
    using month_of_day_within_year [OF mn l dt(1) dt(2) [folded l_def] W] .
  show "YearFromTime t = y" by (rule Y)
  show "MonthFromTime t = mn" by (rule M)
  show "DateFromTime t = dt"
    unfolding DateFromTime_def Let_def M I W
    using month_cases [OF mn]
    by (elim disjE) (simp_all add: DaysBeforeMonth_def)
qed

lemma int_mod_succ:
  fixes x n :: int
  assumes n: "0 < n"
  shows "(x + 1) mod n = (if x mod n = n - 1 then 0 else x mod n + 1)"
proof -
  have x: "x = n * (x div n) + x mod n" by simp
  have r: "0 \<le> x mod n" "x mod n < n" using n by simp_all
  show ?thesis
  proof (cases "x mod n = n - 1")
    case True
    have "n * (x div n) + x mod n = x" by simp
    then have "x + 1 = n * (x div n) + (n - 1) + 1" using True by linarith
    then have "x + 1 = n * (x div n + 1)" by (simp add: algebra_simps)
    then have "(x + 1) mod n = 0" by simp
    then show ?thesis using True by simp
  next
    case False
    have "(x + 1) mod n = x mod n + 1"
    proof (rule int_mod_pos_eq [where q = "x div n"])
      show "x + 1 = n * (x div n) + (x mod n + 1)" using x by simp
      show "0 \<le> x mod n + 1" using r by simp
      show "x mod n + 1 < n" using r False by simp
    qed
    then show ?thesis using False by simp
  qed
qed

lemma MakeDay_date: "MakeDay y m d = MakeDay y m 1 + d - 1"
  by (simp add: MakeDay_def Let_def)

lemma MonthDays_bounds: "28 \<le> MonthDays y m" "MonthDays y m \<le> 31"
  unfolding MonthDays_def by (rule DaysInMonth_bounds [OF LeapFlag_cases])+

lemma MakeDay_next_month: "MakeDay y (m + 1) 1 = MakeDay y m 1 + MonthDays y m"
proof -
  have r: "0 \<le> m mod 12" "m mod 12 \<le> 11" by simp_all
  note nx = DaysBeforeMonth_next [OF r LeapFlag_cases [of "y + m div 12"]]
  show ?thesis
  proof (cases "m mod 12 = 11")
    case True
    then have d: "(m + 1) div 12 = m div 12 + 1" "(m + 1) mod 12 = 0"
      using int_div_succ [of 12 m] int_mod_succ [of 12 m] by simp_all
    have e: "y + (m div 12 + 1) = y + m div 12 + 1" by simp
    show ?thesis
      using nx True
      by (simp add: MakeDay_def Let_def MonthDays_def d e DayFromYear_Suc DaysInYear_LeapFlag
          DaysBeforeMonth_def [of _ 0])
  next
    case False
    then have d: "(m + 1) div 12 = m div 12" "(m + 1) mod 12 = m mod 12 + 1"
      using int_div_succ [of 12 m] int_mod_succ [of 12 m] by simp_all
    show ?thesis
      using nx False by (simp add: MakeDay_def Let_def MonthDays_def d)
  qed
qed

lemma MakeDay_prev_month: "MakeDay y m 1 = MakeDay y (m - 1) 1 + MonthDays y (m - 1)"
  using MakeDay_next_month [of y "m - 1"] by simp

lemma decode_MakeDay:
  assumes "1 \<le> d" "d \<le> MonthDays y m" "Day t = MakeDay y m d"
  shows "YearFromTime t = y + m div 12" and "MonthFromTime t = m mod 12" and "DateFromTime t = d"
proof -
  have r: "0 \<le> m mod 12" "m mod 12 \<le> 11" by simp_all
  have D: "Day t = DayFromYear (y + m div 12) + DaysBeforeMonth (LeapFlag (y + m div 12)) (m mod 12) + d - 1"
    using assms(3) by (simp add: MakeDay_def Let_def)
  note dd = decode_day [OF r assms(1) assms(2) [unfolded MonthDays_def] D]
  show "YearFromTime t = y + m div 12" by (rule dd(1))
  show "MonthFromTime t = m mod 12" by (rule dd(2))
  show "DateFromTime t = d" by (rule dd(3))
qed

lemma Day_midnight: "Day (d * msPerDay) = d"
  by (simp add: Day_def msPerDay_def)

lemma Day_MakeDate: "0 \<le> ms \<Longrightarrow> ms < msPerDay \<Longrightarrow> Day (MakeDate d ms) = d"
  unfolding Day_def MakeDate_def msPerDay_def
  by (rule int_div_unique) simp_all

lemma loop_up_map: "loop_up f a n acc = acc @ map f [a..n]"
proof (induction f a n acc rule: loop_up.induct)
  case (1 f d n acc)
  show ?case
  proof (cases "d \<le> n")
    case True
    then show ?thesis using 1 by (simp add: loop_up.simps [of f d] upto_rec1 [of d n])
  next
    case False
    then show ?thesis by (simp add: loop_up.simps [of f d])
  qed
qed

lemma loop_down_map: "loop_down f i acc = acc @ map f (rev [0..i])"
proof (induction f i acc rule: loop_down.induct)
  case (1 f i acc)
  show ?case
  proof (cases "i \<ge> 0")
    case True
    then show ?thesis using 1 by (simp add: loop_down.simps [of f i] upto_rec2 [of 0 i])
  next
    case False
    then show ?thesis by (simp add: loop_down.simps [of f i])
  qed
qed

lemma map_plus_upto: "map (\<lambda>i. c + i) [a..b] = [c + a..c + b]"
  by (rule nth_equalityI) simp_all

lemma map_minus_rev_upto: "map (\<lambda>i. c - i) (rev [a..b]) = [c - b..c - a]"
proof (rule nth_equalityI)
  show "length (map (\<lambda>i. c - i) (rev [a..b])) = length [c - b..c - a]" by simp
next
  fix i assume "i < length (map (\<lambda>i. c - i) (rev [a..b]))"
  then have i: "int i < b - a + 1" by simp
  then have "rev [a..b] ! i = [a..b] ! (length [a..b] - Suc i)"
    by (simp add: rev_nth)
  also have "\<dots> = a + int (nat (b - a + 1) - Suc i)" using i by simp
  also have "\<dots> = b - int i" using i by simp
  finally show "map (\<lambda>i. c - i) (rev [a..b]) ! i = [c - b..c - a] ! i" using i by simp
qed

lemma upto_append: "a \<le> b + 1 \<Longrightarrow> b \<le> c \<Longrightarrow> [a..b] @ [b + 1..c] = [a..c]"
proof (cases "b + 1 \<le> c")
  case True
  assume "a \<le> b + 1"
  then show ?thesis using upto_split1 [of a "b + 1" c] True by simp
next
  case False
  assume "b \<le> c"
  then have "b = c" using False by simp
  then show ?thesis by simp
qed

lemma newDate_Some:
  "newDate z (Some y) (Some m) (Some d) = day_start z (MakeDay (MakeFullYear y) m d)"
  by (simp add: newDate_def day_start_def)

lemma day_start_fixed: "day_start (fixed_zone a) d = TimeClip (d * msPerDay - a)"
  by (simp add: day_start_def UTC_def fixed_zone_def MakeDate_def)

lemma LocalTime_fixed: "LocalTime (fixed_zone a) t = t + a"
  by (simp add: LocalTime_def fixed_zone_def)

lemma starts_day_fixed:
  "\<bar>d * msPerDay - a\<bar> \<le> 8640000000000000 \<Longrightarrow> starts_day (fixed_zone a) d"
  by (simp add: starts_day_def day_start_fixed TimeClip_def LocalTime_fixed Day_midnight)

lemma starts_dayD:
  assumes "starts_day z d"
  obtains t where "day_start z d = Some t" "Day (LocalTime z t) = d"
  using assms by (cases "day_start z d") (simp_all add: starts_day_def)

lemma getDay_on_day: "Day (LocalTime z t) = d \<Longrightarrow> getDay z (Some t) = Some ((d + 4) mod 7)"
  by (simp add: getDay_def WeekDay_def)

lemma getters_on_day:
  assumes "Day (LocalTime z t) = MakeDay y m d" "1 \<le> d" "d \<le> MonthDays y m"
  shows "getDate z (Some t) = Some d"
    and "getMonth z (Some t) = Some (m mod 12)"
    and "getFullYear z (Some t) = Some (y + m div 12)"
  using decode_MakeDay [OF assms(2,3,1)]
  by (simp_all add: getDate_def getMonth_def getFullYear_def)

text \<open>
  The grid as a list of days. \<open>F\<close> is the day of the first of the month, \<open>n\<close> the length
  of the month and \<open>s\<close> the day of the week of \<open>F\<close>. The function reads the fields of
  three dates: the first of the month, the day before it (used when the grid starts in the
  month before) and the last day of the month.
\<close>

lemma buildCalendarDates_grid:
  assumes F: "F = MakeDay (MakeFullYear year) month 1"
    and n: "n = MonthDays (MakeFullYear year) month"
    and s: "s = (F + 4) mod 7"
    and A: "starts_day z F"
    and B: "1 \<le> s \<Longrightarrow> starts_day z (F - 1)"
    and C: "starts_day z (F + n - 1)"
  shows "buildCalendarDates z year month = map (day_start z) [F - s..F - s + 41]"
proof -
  define Y where "Y = MakeFullYear year"
  define p where "p = MonthDays Y (month - 1)"
  define g where "g = day_start z"
  have p: "28 \<le> p" "p \<le> 31" unfolding p_def by (rule MonthDays_bounds)+
  have nb: "28 \<le> n" "n \<le> 31" unfolding n by (rule MonthDays_bounds)+
  have sb: "0 \<le> s" "s \<le> 6" unfolding s by simp_all
  have FY: "F = MakeDay Y month 1" and nY: "n = MonthDays Y month"
    by (simp_all add: F n Y_def)
  have PF: "F = MakeDay Y (month - 1) 1 + p" unfolding FY p_def by (rule MakeDay_prev_month)
  have F1: "MakeDay Y (month + 1) 1 = F + n" unfolding FY nY by (rule MakeDay_next_month)
  have nd: "newDate z (Some year) (Some m) (Some d) = g (MakeDay Y m d)" for m d
    by (simp add: newDate_Some g_def Y_def)
  have first: "newDate z (Some year) (Some month) (Some 1) = g F" by (simp add: nd FY)
  obtain t1 where t1: "g F = Some t1" "Day (LocalTime z t1) = F"
    using A unfolding g_def by (rule starts_dayD)
  have startDay: "getDay z (g F) = Some s"
    unfolding t1(1) s by (rule getDay_on_day [OF t1(2)])
  have trailing:
    "map (\<lambda>i. newDate z (Some year) (Some (month - 1))
               (nsub (getDate z (newDate z (Some year) (Some month) (Some 0))) i))
       (rev [0..s - 1])
     = map g [F - s..F - 1]"
  proof (cases "s = 0")
    case True
    then show ?thesis by simp
  next
    case False
    then have s1: "1 \<le> s" using sb by simp
    have prev0: "newDate z (Some year) (Some month) (Some 0) = g (F - 1)"
      using MakeDay_date [of Y month 0] by (simp add: nd FY)
    obtain t0 where t0: "g (F - 1) = Some t0" "Day (LocalTime z t0) = F - 1"
      using B [OF s1] unfolding g_def by (rule starts_dayD)
    have "MakeDay Y (month - 1) p = F - 1"
      using MakeDay_date [of Y "month - 1" p] PF by simp
    then have "Day (LocalTime z t0) = MakeDay Y (month - 1) p" using t0(2) by simp
    then have "getDate z (Some t0) = Some p"
    proof (rule getters_on_day(1))
      show "1 \<le> p" using p by simp
      show "p \<le> MonthDays Y (month - 1)" by (simp add: p_def)
    qed
    then have daysInPrevMonth: "getDate z (g (F - 1)) = Some p" by (simp add: t0(1))
    have "map (\<lambda>i. newDate z (Some year) (Some (month - 1)) (nsub (Some p) i)) (rev [0..s - 1])
        = map (\<lambda>i. g ((F - 1) - i)) (rev [0..s - 1])"
    proof (rule map_cong [OF refl])
      fix i assume "i \<in> set (rev [0..s - 1])"
      have e: "MakeDay Y (month - 1) (p - i) = F - 1 - i"
        using MakeDay_date [of Y "month - 1" "p - i"] PF by simp
      show "newDate z (Some year) (Some (month - 1)) (nsub (Some p) i) = g ((F - 1) - i)"
        using nd [of "month - 1" "p - i"] e by (simp add: nsub_def)
    qed
    also have "\<dots> = map g (map (\<lambda>i. (F - 1) - i) (rev [0..s - 1]))" by (simp add: comp_def)
    also have "map (\<lambda>i. (F - 1) - i) (rev [0..s - 1]) = [F - s..F - 1]"
    proof -
      have e: "F - 1 - (s - 1) = F - s" "F - 1 - 0 = F - 1" by linarith+
      show ?thesis unfolding map_minus_rev_upto e ..
    qed
    finally show ?thesis unfolding prev0 daysInPrevMonth .
  qed
  have next0: "newDate z (Some year) (Some (month + 1)) (Some 0) = g (F + n - 1)"
    using MakeDay_date [of Y "month + 1" 0] F1 by (simp add: nd)
  obtain t2 where t2: "g (F + n - 1) = Some t2" "Day (LocalTime z t2) = F + n - 1"
    using C unfolding g_def by (rule starts_dayD)
  have "MakeDay Y month n = F + n - 1"
    using MakeDay_date [of Y month n] by (simp add: FY)
  then have "Day (LocalTime z t2) = MakeDay Y month n" using t2(2) by simp
  then have "getDate z (Some t2) = Some n"
  proof (rule getters_on_day(1))
    show "1 \<le> n" using nb by simp
    show "n \<le> MonthDays Y month" by (simp add: nY)
  qed
  then have daysInMonth: "getDate z (g (F + n - 1)) = Some n" by (simp add: t2(1))
  have current: "map (\<lambda>d. newDate z (Some year) (Some month) (Some d)) [1..n] = map g [F..F + n - 1]"
  proof -
    have "map (\<lambda>d. newDate z (Some year) (Some month) (Some d)) [1..n]
        = map (\<lambda>d. g ((F - 1) + d)) [1..n]"
    proof (rule map_cong [OF refl])
      fix d assume "d \<in> set [1..n]"
      have e: "MakeDay Y month d = F - 1 + d"
        using MakeDay_date [of Y month d] by (simp add: FY)
      show "newDate z (Some year) (Some month) (Some d) = g ((F - 1) + d)"
        using nd [of month d] e by simp
    qed
    also have "\<dots> = map g (map (\<lambda>d. (F - 1) + d) [1..n])" by (simp add: comp_def)
    also have "map (\<lambda>d. (F - 1) + d) [1..n] = [F..F + n - 1]"
    proof -
      have e: "F - 1 + 1 = F" "F - 1 + n = F + n - 1" by linarith+
      show ?thesis unfolding map_plus_upto e ..
    qed
    finally show ?thesis .
  qed
  define k where "k = 42 - (s + n)"
  have leading: "map (\<lambda>d. newDate z (Some year) (Some (month + 1)) (Some d)) [1..k]
               = map g [F + n..F - s + 41]"
  proof -
    have "map (\<lambda>d. newDate z (Some year) (Some (month + 1)) (Some d)) [1..k]
        = map (\<lambda>d. g ((F + n - 1) + d)) [1..k]"
    proof (rule map_cong [OF refl])
      fix d assume "d \<in> set [1..k]"
      have e: "MakeDay Y (month + 1) d = F + n - 1 + d"
        using MakeDay_date [of Y "month + 1" d] F1 by simp
      show "newDate z (Some year) (Some (month + 1)) (Some d) = g ((F + n - 1) + d)"
        using nd [of "month + 1" d] e by simp
    qed
    also have "\<dots> = map g (map (\<lambda>d. (F + n - 1) + d) [1..k])" by (simp add: comp_def)
    also have "map (\<lambda>d. (F + n - 1) + d) [1..k] = [F + n..F - s + 41]"
    proof -
      have e: "F + n - 1 + 1 = F + n" "F + n - 1 + k = F - s + 41" unfolding k_def by linarith+
      show ?thesis unfolding map_plus_upto e ..
    qed
    finally show ?thesis .
  qed
  have len: "42 - int (length (map g [F - s..F - 1] @ map g [F..F + n - 1])) = k"
    using sb nb by (simp add: k_def)
  have "buildCalendarDates z year month
      = (map g [F - s..F - 1] @ map g [F..F + n - 1]) @ map g [F + n..F - s + 41]"
    unfolding buildCalendarDates_def Let_def first startDay next0 daysInMonth
      option.case loop_down_map loop_up_map append_Nil trailing current len leading ..
  also have "\<dots> = map g (([F - s..F - 1] @ [F..F + n - 1]) @ [F + n..F - s + 41])" by simp
  also have "[F - s..F - 1] @ [F..F + n - 1] = [F - s..F + n - 1]"
    using upto_append [of "F - s" "F - 1" "F + n - 1"] sb nb by simp
  also have "[F - s..F + n - 1] @ [F + n..F - s + 41] = [F - s..F - s + 41]"
    using upto_append [of "F - s" "F + n - 1" "F - s + 41"] sb nb by simp
  finally show ?thesis unfolding g_def .
qed

lemma nat_to_string_small: "n < 10 \<Longrightarrow> nat_to_string n = [digit_char n]"
  by (simp add: nat_to_string.simps)

lemma nat_to_string_big:
  "10 \<le> n \<Longrightarrow> nat_to_string n = nat_to_string (n div 10) @ [digit_char (n mod 10)]"
  by (subst nat_to_string.simps) simp

lemma pad_two_digits:
  assumes "0 \<le> n" "n \<le> 99"
  shows "padStart (int_to_string n) 2 CHR ''0'' = two_digits n"
proof (cases "nat n < 10")
  case True
  then have "nat n div 10 = 0" "nat n mod 10 = nat n" by simp_all
  then show ?thesis
    using assms True
    by (simp add: int_to_string_def nat_to_string_small padStart_def two_digits_def digit_char_def)
next
  case False
  then have b: "10 \<le> nat n" by simp
  have "nat n div 10 < 10" using assms by simp
  then show ?thesis
    using assms b
    by (simp add: int_to_string_def nat_to_string_big nat_to_string_small padStart_def
        two_digits_def)
qed

lemma decode_at:
  assumes "Day t = MakeDay y m d" "0 \<le> m" "m \<le> 11" "1 \<le> d" "d \<le> MonthDays y m"
  shows "YearFromTime t = y" and "MonthFromTime t = m" and "DateFromTime t = d"
  using decode_MakeDay [OF assms(4,5,1)] assms(2,3) by simp_all

lemma year_of_same_day: "Day t = Day t' \<Longrightarrow> YearFromTime t = YearFromTime t'"
  by (simp add: YearFromTime_def)

lemma month_of_same_day: "Day t = Day t' \<Longrightarrow> MonthFromTime t = MonthFromTime t'"
  by (simp add: MonthFromTime_def DayWithinYear_def InLeapYear_def year_of_same_day [of t t'])

lemma date_of_same_day: "Day t = Day t' \<Longrightarrow> DateFromTime t = DateFromTime t'"
  by (simp add: DateFromTime_def DayWithinYear_def InLeapYear_def year_of_same_day [of t t']
      month_of_same_day [of t t'])

lemma DayWithinYear_bounds: "0 \<le> DayWithinYear t" "DayWithinYear t < 365 + InLeapYear t"
  using YearFromTime_bounds [of t]
  by (simp_all add: DayWithinYear_def InLeapYear_def DayFromYear_Suc DaysInYear_LeapFlag)

lemma MonthFromTime_bounds: "0 \<le> MonthFromTime t" "MonthFromTime t \<le> 11"
  by (simp_all add: MonthFromTime_def Let_def)

lemma DateFromTime_bounds: "1 \<le> DateFromTime t" "DateFromTime t \<le> 31"
proof -
  define d where "d = DayWithinYear t"
  define l where "l = InLeapYear t"
  have l: "l = 0 \<or> l = 1" unfolding l_def InLeapYear_def by (rule LeapFlag_cases)
  have d: "0 \<le> d" "d < 365 + l" unfolding d_def l_def by (rule DayWithinYear_bounds)+
  have "1 \<le> DateFromTime t \<and> DateFromTime t \<le> 31"
    unfolding DateFromTime_def MonthFromTime_def Let_def d_def [symmetric] l_def [symmetric]
    using l d by (elim disjE) simp_all
  then show "1 \<le> DateFromTime t" "DateFromTime t \<le> 31" by simp_all
qed

lemma toDateKey_Some:
  "toDateKey z (Some t) =
     int_to_string (YearFromTime (LocalTime z t)) @ ''-''
       @ two_digits (MonthFromTime (LocalTime z t) + 1) @ ''-''
       @ two_digits (DateFromTime (LocalTime z t))"
proof -
  have m: "padStart (int_to_string (MonthFromTime (LocalTime z t) + 1)) 2 CHR ''0''
         = two_digits (MonthFromTime (LocalTime z t) + 1)"
    using MonthFromTime_bounds [of "LocalTime z t"] by (intro pad_two_digits) simp_all
  have d: "padStart (int_to_string (DateFromTime (LocalTime z t))) 2 CHR ''0''
         = two_digits (DateFromTime (LocalTime z t))"
    using DateFromTime_bounds [of "LocalTime z t"] by (intro pad_two_digits) simp_all
  show ?thesis
    by (simp add: toDateKey_def Let_def getFullYear_def getMonth_def getDate_def nadd_def
        numToString_def m d)
qed

lemma toDateKey_civil:
  assumes "Day (LocalTime z t) = MakeDay y m d" "0 \<le> m" "m \<le> 11" "1 \<le> d" "d \<le> MonthDays y m"
  shows "toDateKey z (Some t) = int_to_string y @ ''-'' @ two_digits (m + 1) @ ''-'' @ two_digits d"
  by (simp add: toDateKey_Some decode_at [OF assms])

text \<open>
  C2. For every date that holds a time value, and in every time zone, \<open>toDateKey\<close> is the
  local year, a dash, the local month (1 to 12) in two digits, a dash and the local day of
  the month (1 to 31) in two digits. Two times on the same local day have the same key; the
  key of a wall-clock time \<open>ms\<close> milliseconds into the local day \<open>d\<close> of month \<open>m\<close> of
  year \<open>y\<close> is the key of \<open>(y, m, d)\<close>, however late in the day and however far the
  zone is behind UTC: this is said once for a zone of constant offset \<open>tza\<close>, where the
  time value of the wall-clock time is computed, and once for any zone and any time whose
  local reading is that wall-clock time.
\<close>

theorem toDateKey_local_day:
  "toDateKey z (Some t) =
     int_to_string (YearFromTime (LocalTime z t)) @ ''-''
       @ two_digits (MonthFromTime (LocalTime z t) + 1) @ ''-''
       @ two_digits (DateFromTime (LocalTime z t))
   \<and> 1 \<le> MonthFromTime (LocalTime z t) + 1 \<and> MonthFromTime (LocalTime z t) + 1 \<le> 12
   \<and> 1 \<le> DateFromTime (LocalTime z t) \<and> DateFromTime (LocalTime z t) \<le> 31
   \<and> (Day (LocalTime z t) = Day (LocalTime z t') \<longrightarrow>
        toDateKey z (Some t) = toDateKey z (Some t'))
   \<and> (0 \<le> m \<and> m \<le> 11 \<and> 1 \<le> d \<and> d \<le> MonthDays y m \<and> 0 \<le> ms \<and> ms < msPerDay \<longrightarrow>
        toDateKey (fixed_zone tza) (Some (UTC (fixed_zone tza) (MakeDate (MakeDay y m d) ms)))
          = int_to_string y @ ''-'' @ two_digits (m + 1) @ ''-'' @ two_digits d)
   \<and> (0 \<le> m \<and> m \<le> 11 \<and> 1 \<le> d \<and> d \<le> MonthDays y m \<and> 0 \<le> ms \<and> ms < msPerDay
        \<and> LocalTime z t = MakeDate (MakeDay y m d) ms \<longrightarrow>
        toDateKey z (Some t)
          = int_to_string y @ ''-'' @ two_digits (m + 1) @ ''-'' @ two_digits d)"
proof -
  have same: "toDateKey z (Some t) = toDateKey z (Some t')"
    if "Day (LocalTime z t) = Day (LocalTime z t')"
    by (simp add: toDateKey_Some year_of_same_day [OF that] month_of_same_day [OF that]
        date_of_same_day [OF that])
  have civil: "toDateKey (fixed_zone tza) (Some (UTC (fixed_zone tza) (MakeDate (MakeDay y m d) ms)))
          = int_to_string y @ ''-'' @ two_digits (m + 1) @ ''-'' @ two_digits d"
    if "0 \<le> m" "m \<le> 11" "1 \<le> d" "d \<le> MonthDays y m" "0 \<le> ms" "ms < msPerDay"
  proof (rule toDateKey_civil)
    show "Day (LocalTime (fixed_zone tza) (UTC (fixed_zone tza) (MakeDate (MakeDay y m d) ms)))
            = MakeDay y m d"
      using that by (simp add: LocalTime_def UTC_def fixed_zone_def Day_MakeDate)
  qed (use that in simp_all)
  have reading: "toDateKey z (Some t)
          = int_to_string y @ ''-'' @ two_digits (m + 1) @ ''-'' @ two_digits d"
    if "0 \<le> m" "m \<le> 11" "1 \<le> d" "d \<le> MonthDays y m" "0 \<le> ms" "ms < msPerDay"
      "LocalTime z t = MakeDate (MakeDay y m d) ms"
  proof (rule toDateKey_civil)
    show "Day (LocalTime z t) = MakeDay y m d"
      using that by (simp add: Day_MakeDate)
  qed (use that in simp_all)
  show ?thesis
    using MonthFromTime_bounds [of "LocalTime z t"] DateFromTime_bounds [of "LocalTime z t"]
      same civil reading
    by (simp add: toDateKey_Some)
qed

lemmas civil_eval =
  MakeDay_def MonthDays_def DaysInMonth_def DayFromYear_def LeapFlag_def DaysInYear_def
  DaysBeforeMonth_def MakeFullYear_def Let_def

lemmas string_eval =
  int_to_string_def nat_to_string_big nat_to_string_small digit_char_def two_digits_def
  padStart_def pad_int_def

lemmas zone_eval = LocalTime_def UTC_def fixed_zone_def

theorem toDateKey_local_day_witness:
  "UTC (fixed_zone (- 18000000)) (MakeDate (MakeDay 2025 7 18) 84600000) = 1755577800000
   \<and> Day 1755577800000 = MakeDay 2025 7 19
   \<and> toDateKey (fixed_zone (- 18000000)) (Some 1755577800000) = ''2025-08-18''
   \<and> toDateKey (fixed_zone (- 18000000)) (Some 1755577800000)
       = toDateKey (fixed_zone (- 18000000)) (Some 1755493200000)"
proof -
  have u: "UTC (fixed_zone (- 18000000)) (MakeDate (MakeDay 2025 7 18) 84600000) = 1755577800000"
    by (simp add: zone_eval MakeDate_def msPerDay_def civil_eval)
  have v: "Day 1755577800000 = MakeDay 2025 7 19"
    by (simp add: Day_def msPerDay_def civil_eval)
  have h: "(0::int) \<le> 7 \<and> (7::int) \<le> 11 \<and> (1::int) \<le> 18 \<and> 18 \<le> MonthDays 2025 7
         \<and> (0::int) \<le> 84600000 \<and> 84600000 < msPerDay"
    by (simp add: msPerDay_def civil_eval)
  have s: "int_to_string 2025 @ ''-'' @ two_digits (7 + 1) @ ''-'' @ two_digits 18 = ''2025-08-18''"
    by (simp add: string_eval)
  have d: "Day (LocalTime (fixed_zone (- 18000000)) 1755577800000)
         = Day (LocalTime (fixed_zone (- 18000000)) 1755493200000)"
    by (simp add: Day_def zone_eval msPerDay_def)
  note t = toDateKey_local_day [where z = "fixed_zone (- 18000000)" and t = 1755577800000
      and t' = 1755493200000 and m = 7 and d = 18 and y = 2025 and ms = 84600000
      and tza = "- 18000000"]
  from t h have 1: "toDateKey (fixed_zone (- 18000000))
            (Some (UTC (fixed_zone (- 18000000)) (MakeDate (MakeDay 2025 7 18) 84600000)))
          = int_to_string 2025 @ ''-'' @ two_digits (7 + 1) @ ''-'' @ two_digits 18"
    by blast
  from t d have 2: "toDateKey (fixed_zone (- 18000000)) (Some 1755577800000)
                  = toDateKey (fixed_zone (- 18000000)) (Some 1755493200000)"
    by blast
  have r: "LocalTime (fixed_zone (- 18000000)) 1755577800000
         = MakeDate (MakeDay 2025 7 18) 84600000"
    by (simp add: zone_eval MakeDate_def msPerDay_def civil_eval)
  from t h r have 3: "toDateKey (fixed_zone (- 18000000)) (Some 1755577800000)
          = int_to_string 2025 @ ''-'' @ two_digits (7 + 1) @ ''-'' @ two_digits 18"
    by blast
  show ?thesis using u v 1 2 3 s by simp
qed

lemma sunday_on_or_before_props:
  "sunday_on_or_before d \<le> d" "d \<le> sunday_on_or_before d + 6"
  "(sunday_on_or_before d + 4) mod 7 = 0"
proof -
  have b: "0 \<le> (d + 4) mod 7" "(d + 4) mod 7 \<le> 6" by simp_all
  show "sunday_on_or_before d \<le> d" "d \<le> sunday_on_or_before d + 6"
    using b by (simp_all add: sunday_on_or_before_def)
  have "(d - (d + 4) mod 7 + 4) mod 7 = (d + 4 - (d + 4) mod 7) mod 7"
    by (simp add: algebra_simps)
  also have "\<dots> = 0" by (simp add: mod_diff_right_eq)
  finally show "(sunday_on_or_before d + 4) mod 7 = 0" by (simp add: sunday_on_or_before_def)
qed

lemma day_start_time: "day_start z d = Some t \<Longrightarrow> t = d * msPerDay - z (d * msPerDay) False"
  by (simp add: day_start_def TimeClip_def UTC_def MakeDate_def split: if_splits)

text \<open>
  C1, as the code has it. Let the year be one that the \<open>Date\<close> constructor takes as it is
  (not 0 to 99, which it takes as 1900 to 1999), and let each of the 42 days from the Sunday
  on or before the first of the month have a start: the constructor gives a valid date on
  that local day (the day is within the range of the type and the zone does not skip it).
  Then \<open>buildCalendarDates\<close> returns 42 dates; the date at index \<open>i\<close> is the one the
  constructor makes for the \<open>i\<close>-th of these days and is a time of that local day, so the
  dates are on consecutive local days without gaps; the first is a Sunday; the first of the
  month (the date whose local year, month and day of the month are those asked for, a month
  outside 0 to 11 being carried into the year) is among the first seven; and the time values
  ascend strictly when the offsets of the zone differ by less than a day.
\<close>

theorem buildCalendarDates_six_weeks:
  assumes yr: "year < 0 \<or> 99 < year"
    and days: "\<forall>d. sunday_on_or_before (MakeDay year month 1) \<le> d
                  \<and> d \<le> sunday_on_or_before (MakeDay year month 1) + 41 \<longrightarrow> starts_day z d"
  shows "length (buildCalendarDates z year month) = 42
       \<and> (\<forall>i < 42. buildCalendarDates z year month ! i
                      = day_start z (sunday_on_or_before (MakeDay year month 1) + int i)
                  \<and> (\<exists>t. buildCalendarDates z year month ! i = Some t
                        \<and> Day (LocalTime z t) = sunday_on_or_before (MakeDay year month 1) + int i))
       \<and> getDay z (buildCalendarDates z year month ! 0) = Some 0
       \<and> (\<exists>j < 7. \<exists>t. buildCalendarDates z year month ! j = Some t
               \<and> getFullYear z (Some t) = Some (year + month div 12)
               \<and> getMonth z (Some t) = Some (month mod 12)
               \<and> getDate z (Some t) = Some 1
               \<and> newDate z (Some year) (Some month) (Some 1) = Some t)
       \<and> ((\<forall>a b. z a False - z b False < msPerDay) \<longrightarrow>
            (\<forall>i < 41. \<exists>t t'. buildCalendarDates z year month ! i = Some t
                  \<and> buildCalendarDates z year month ! Suc i = Some t' \<and> t < t'))"
proof -
  define F where "F = MakeDay year month 1"
  define S where "S = sunday_on_or_before F"
  define s where "s = (F + 4) mod 7"
  define n where "n = MonthDays year month"
  define ds where "ds = buildCalendarDates z year month"
  have Y: "MakeFullYear year = year" using yr by (auto simp: MakeFullYear_def)
  have sb: "0 \<le> s" "s \<le> 6" unfolding s_def by simp_all
  have nb: "28 \<le> n" "n \<le> 31" unfolding n_def by (rule MonthDays_bounds)+
  have S: "S = F - s" by (simp add: S_def sunday_on_or_before_def s_def)
  have sd: "starts_day z d" if "S \<le> d" "d \<le> S + 41" for d
    using days that by (simp add: S_def F_def)
  have grid: "ds = map (day_start z) [F - s..F - s + 41]"
    unfolding ds_def
  proof (rule buildCalendarDates_grid [where n = n])
    show "F = MakeDay (MakeFullYear year) month 1" by (simp add: F_def Y)
    show "n = MonthDays (MakeFullYear year) month" by (simp add: n_def Y)
    show "s = (F + 4) mod 7" by (rule s_def)
    show "starts_day z F" using sb by (intro sd) (simp_all add: S)
    show "starts_day z (F - 1)" if "1 \<le> s" using sb that by (intro sd) (simp_all add: S)
    show "starts_day z (F + n - 1)" using sb nb by (intro sd) (simp_all add: S)
  qed
  have len: "length ds = 42" by (simp add: grid)
  have nth: "ds ! i = day_start z (S + int i)" if "i < 42" for i
    using that by (simp add: grid S)
  have on: "\<exists>t. ds ! i = Some t \<and> Day (LocalTime z t) = S + int i" if "i < 42" for i
  proof -
    have "starts_day z (S + int i)" using that by (intro sd) simp_all
    then obtain t where "day_start z (S + int i) = Some t" "Day (LocalTime z t) = S + int i"
      by (rule starts_dayD)
    then show ?thesis using nth [OF that] by simp
  qed
  have a: "\<forall>i < 42. ds ! i = day_start z (S + int i)
                  \<and> (\<exists>t. ds ! i = Some t \<and> Day (LocalTime z t) = S + int i)"
    using nth on by blast
  have b: "getDay z (ds ! 0) = Some 0"
  proof -
    obtain t where t: "ds ! 0 = Some t" "Day (LocalTime z t) = S" using on [of 0] by auto
    have "getDay z (Some t) = Some ((S + 4) mod 7)" by (rule getDay_on_day [OF t(2)])
    then show ?thesis
      using sunday_on_or_before_props(3) [of F] by (simp add: t(1) S_def)
  qed
  have c: "\<exists>j < 7. \<exists>t. ds ! j = Some t
               \<and> getFullYear z (Some t) = Some (year + month div 12)
               \<and> getMonth z (Some t) = Some (month mod 12)
               \<and> getDate z (Some t) = Some 1
               \<and> newDate z (Some year) (Some month) (Some 1) = Some t"
  proof -
    have j: "nat s < 7" "nat s < 42" "S + int (nat s) = F" using sb by (simp_all add: S)
    obtain t where t: "ds ! nat s = Some t" "Day (LocalTime z t) = F"
      using on [OF j(2)] j(3) by auto
    have D: "Day (LocalTime z t) = MakeDay year month 1" using t(2) by (simp add: F_def)
    have one: "(1::int) \<le> 1" "1 \<le> MonthDays year month"
      using MonthDays_bounds(1) [of year month] by simp_all
    note g = getters_on_day [OF D one]
    have "newDate z (Some year) (Some month) (Some 1) = day_start z F"
      by (simp add: newDate_Some Y F_def)
    also have "\<dots> = ds ! nat s" using nth [OF j(2)] j(3) by simp
    finally have "newDate z (Some year) (Some month) (Some 1) = Some t" by (simp add: t(1))
    then show ?thesis using j(1) t(1) g by blast
  qed
  have d: "\<forall>i < 41. \<exists>t t'. ds ! i = Some t \<and> ds ! Suc i = Some t' \<and> t < t'"
    if off: "\<forall>a b. z a False - z b False < msPerDay"
  proof (intro allI impI)
    fix i :: nat assume i: "i < 41"
    obtain t where t: "ds ! i = Some t" using on [of i] i by auto
    obtain t' where t': "ds ! Suc i = Some t'" using on [of "Suc i"] i by auto
    have 1: "t = (S + int i) * msPerDay - z ((S + int i) * msPerDay) False"
      using nth [of i] i t by (intro day_start_time) simp
    have 2: "t' = (S + int (Suc i)) * msPerDay - z ((S + int (Suc i)) * msPerDay) False"
      using nth [of "Suc i"] i t' by (intro day_start_time) simp
    have "(S + int (Suc i)) * msPerDay = (S + int i) * msPerDay + msPerDay"
      by (simp add: algebra_simps)
    moreover have "z ((S + int (Suc i)) * msPerDay) False - z ((S + int i) * msPerDay) False < msPerDay"
      using off by blast
    ultimately have "t < t'" unfolding 1 2 by linarith
    then show "\<exists>t t'. ds ! i = Some t \<and> ds ! Suc i = Some t' \<and> t < t'" using t t' by blast
  qed
  show ?thesis using len a b c d unfolding ds_def S_def F_def by blast
qed

lemma toronto_starts_day:
  assumes "- 99999990 \<le> d" "d \<le> 99999990"
  shows "starts_day toronto_2025 d"
proof (cases "d \<le> 20156")
  case True
  then show ?thesis using assms
    by (simp add: starts_day_def day_start_def UTC_def MakeDate_def toronto_2025_def LocalTime_def
        TimeClip_def Day_def msPerDay_def)
next
  case False
  then show ?thesis using assms
    by (simp add: starts_day_def day_start_def UTC_def MakeDate_def toronto_2025_def LocalTime_def
        TimeClip_def Day_def msPerDay_def)
qed

theorem buildCalendarDates_six_weeks_witness:
  "sunday_on_or_before (MakeDay 2025 2 1) = 20142
   \<and> length (buildCalendarDates toronto_2025 2025 2) = 42
   \<and> buildCalendarDates toronto_2025 2025 2 ! 0 = Some 1740286800000
   \<and> getDay toronto_2025 (buildCalendarDates toronto_2025 2025 2 ! 0) = Some 0
   \<and> buildCalendarDates toronto_2025 2025 2 ! 14 = Some 1741496400000
   \<and> buildCalendarDates toronto_2025 2025 2 ! 15 = Some (1741496400000 + 82800000)"
proof -
  have yr: "(2025::int) < 0 \<or> 99 < (2025::int)" by simp
  have S: "sunday_on_or_before (MakeDay 2025 2 1) = 20142"
    by (simp add: sunday_on_or_before_def civil_eval)
  have days: "\<forall>d. sunday_on_or_before (MakeDay 2025 2 1) \<le> d
                  \<and> d \<le> sunday_on_or_before (MakeDay 2025 2 1) + 41 \<longrightarrow> starts_day toronto_2025 d"
    unfolding S using toronto_starts_day by simp
  note t = buildCalendarDates_six_weeks [OF yr days, unfolded S]
  from t have len: "length (buildCalendarDates toronto_2025 2025 2) = 42" by (rule conjunct1)
  from t have sun: "getDay toronto_2025 (buildCalendarDates toronto_2025 2025 2 ! 0) = Some 0"
    by blast
  from t have nth: "\<forall>i < 42. buildCalendarDates toronto_2025 2025 2 ! i
                      = day_start toronto_2025 (20142 + int i)"
    by blast
  have e: "day_start toronto_2025 20142 = Some 1740286800000"
    "day_start toronto_2025 20156 = Some 1741496400000"
    "day_start toronto_2025 20157 = Some 1741579200000"
    by (simp_all add: day_start_def UTC_def MakeDate_def toronto_2025_def TimeClip_def msPerDay_def)
  have 0: "buildCalendarDates toronto_2025 2025 2 ! 0 = Some 1740286800000"
    using nth [rule_format, of 0] e by simp
  have 14: "buildCalendarDates toronto_2025 2025 2 ! 14 = Some 1741496400000"
    using nth [rule_format, of 14] e by simp
  have 15: "buildCalendarDates toronto_2025 2025 2 ! 15 = Some (1741496400000 + 82800000)"
    using nth [rule_format, of 15] e by simp
  have off: "\<forall>a b. toronto_2025 a False - toronto_2025 b False < msPerDay"
    by (simp add: toronto_2025_def msPerDay_def)
  from t off have "\<forall>i < 41. \<exists>t t'. buildCalendarDates toronto_2025 2025 2 ! i = Some t
                  \<and> buildCalendarDates toronto_2025 2025 2 ! Suc i = Some t' \<and> t < t'"
    by blast
  from this [rule_format, of 14]
  have asc: "\<exists>t t'. buildCalendarDates toronto_2025 2025 2 ! 14 = Some t
                  \<and> buildCalendarDates toronto_2025 2025 2 ! 15 = Some t' \<and> t < t'"
    by simp
  show ?thesis using S len sun 0 14 15 asc by simp
qed

text \<open>
  C1 as stated fails in three ways. At the end of the range of the \<open>Date\<close> type: for
  September of the year 275760 the first of the month is a valid date, and it is not among
  the dates returned (the last day of the month is past the last representable day, so the
  loop over the days of the month does not run). For a year from 0 to 99: for December of
  the year 99 the dates returned are those of December 1999, and the first of December of
  the year 99 is not among them. Where the zone skips a day: in Apia, for December 2011, the
  dates at the indices 33 and 34 are the same time, the start of 31 December.
\<close>

theorem buildCalendarDates_not_six_weeks:
  "newDate (fixed_zone 0) (Some 275760) (Some 8) (Some 1) = Some 8639998963200000
   \<and> newDate (fixed_zone 0) (Some 275760) (Some 8) (Some 1)
       \<notin> set (buildCalendarDates (fixed_zone 0) 275760 8)
   \<and> getFullYear (fixed_zone 0) (Some (- 59014137600000)) = Some 99
   \<and> getMonth (fixed_zone 0) (Some (- 59014137600000)) = Some 11
   \<and> getDate (fixed_zone 0) (Some (- 59014137600000)) = Some 1
   \<and> Some (- 59014137600000) \<notin> set (buildCalendarDates (fixed_zone 0) 99 11)
   \<and> buildCalendarDates (fixed_zone 0) 99 11 ! 3
       = newDate (fixed_zone 0) (Some 1999) (Some 11) (Some 1)
   \<and> buildCalendarDates apia_2011 2011 11 ! 33 = Some 1325239200000
   \<and> buildCalendarDates apia_2011 2011 11 ! 34 = Some 1325239200000"
proof -
  have first: "newDate (fixed_zone 0) (Some 275760) (Some 8) (Some 1) = Some 8639998963200000"
    by (simp add: newDate_Some day_start_fixed TimeClip_def msPerDay_def civil_eval)
  have startDay: "getDay (fixed_zone 0) (Some 8639998963200000) = Some 1"
    by (simp add: getDay_def zone_eval WeekDay_def Day_def msPerDay_def)
  have prev0: "newDate (fixed_zone 0) (Some 275760) (Some 8) (Some 0) = Some 8639998876800000"
    by (simp add: newDate_Some day_start_fixed TimeClip_def msPerDay_def civil_eval)
  have "DateFromTime 8639998876800000 = 31"
    by (rule decode_at(3) [where y = 275760 and m = 7])
      (simp_all add: Day_def msPerDay_def civil_eval)
  then have daysInPrevMonth: "getDate (fixed_zone 0) (Some 8639998876800000) = Some 31"
    by (simp add: getDate_def zone_eval)
  have next0: "newDate (fixed_zone 0) (Some 275760) (Some 9) (Some 0) = None"
    by (simp add: newDate_Some day_start_fixed TimeClip_def msPerDay_def civil_eval)
  have trailing: "newDate (fixed_zone 0) (Some 275760) (Some 7) (Some 31) = Some 8639998876800000"
    by (simp add: newDate_Some day_start_fixed TimeClip_def msPerDay_def civil_eval)
  have leading: "newDate (fixed_zone 0) (Some 275760) (Some 9) (Some n) = None" if "1 \<le> n" for n
  proof -
    have "MakeDay 275760 9 n = 100000017 + n"
      using MakeDay_date [of 275760 9 n] by (simp add: civil_eval)
    then show ?thesis
      using that by (simp add: newDate_Some day_start_fixed TimeClip_def msPerDay_def MakeFullYear_def)
  qed
  have noDate: "getDate (fixed_zone 0) None = None" by (simp add: getDate_def)
  have "Some 8639998963200000 \<notin> set (buildCalendarDates (fixed_zone 0) 275760 8)"
    by (auto simp add: buildCalendarDates_def Let_def first startDay prev0 daysInPrevMonth next0
        loop_down_map loop_up_map trailing noDate nsub_def leading)
  then have a: "newDate (fixed_zone 0) (Some 275760) (Some 8) (Some 1)
       \<notin> set (buildCalendarDates (fixed_zone 0) 275760 8)"
    using first by simp
  have D99: "Day (LocalTime (fixed_zone 0) (- 59014137600000)) = MakeDay 99 11 1"
    by (simp add: zone_eval Day_def msPerDay_def civil_eval)
  have r99: "(1::int) \<le> 1" "1 \<le> MonthDays 99 11" by (simp_all add: civil_eval)
  note g99 = getters_on_day [OF D99 r99]
  have b1: "getFullYear (fixed_zone 0) (Some (- 59014137600000)) = Some 99"
    "getMonth (fixed_zone 0) (Some (- 59014137600000)) = Some 11"
    "getDate (fixed_zone 0) (Some (- 59014137600000)) = Some 1"
    using g99 by simp_all
  have sd0: "starts_day (fixed_zone 0) d" if "- 99999990 \<le> d" "d \<le> 99999990" for d
    using that by (intro starts_day_fixed) (simp add: msPerDay_def)
  have grid99: "buildCalendarDates (fixed_zone 0) 99 11
              = map (day_start (fixed_zone 0)) [10926 - 3..10926 - 3 + 41]"
    by (rule buildCalendarDates_grid [where n = 31]) (simp_all add: civil_eval sd0)
  have b2: "Some (- 59014137600000) \<notin> set (buildCalendarDates (fixed_zone 0) 99 11)"
    unfolding grid99 by (auto simp: day_start_fixed TimeClip_def msPerDay_def)
  have b3: "buildCalendarDates (fixed_zone 0) 99 11 ! 3
       = newDate (fixed_zone 0) (Some 1999) (Some 11) (Some 1)"
    unfolding grid99 by (simp add: newDate_Some civil_eval)
  have sdA: "starts_day apia_2011 15309" "starts_day apia_2011 15308" "starts_day apia_2011 15339"
    by (simp_all add: starts_day_def day_start_def UTC_def MakeDate_def apia_2011_def LocalTime_def
        TimeClip_def Day_def msPerDay_def)
  have gridA: "buildCalendarDates apia_2011 2011 11
              = map (day_start apia_2011) [15309 - 4..15309 - 4 + 41]"
    by (rule buildCalendarDates_grid [where n = 31]) (simp_all add: civil_eval sdA)
  have c: "buildCalendarDates apia_2011 2011 11 ! 33 = Some 1325239200000"
    "buildCalendarDates apia_2011 2011 11 ! 34 = Some 1325239200000"
    unfolding gridA
    by (simp_all add: day_start_def UTC_def MakeDate_def apia_2011_def TimeClip_def msPerDay_def)
  show ?thesis using first a b1 b2 b3 c by simp
qed

section \<open>The weather fallback in a zone east of UTC\<close>

lemma toISOString_civil:
  assumes "Day t = MakeDay y m d" "0 \<le> m" "m \<le> 11" "1 \<le> d" "d \<le> MonthDays y m"
    and "0 \<le> y" "y \<le> 9999"
  shows "toISOString (Some t) =
           Inr (pad_int 4 y @ ''-'' @ two_digits (m + 1) @ ''-'' @ two_digits d
                @ ''T'' @ pad_int 2 (HourFromTime t) @ '':'' @ pad_int 2 (MinFromTime t)
                @ '':'' @ pad_int 2 (SecFromTime t) @ ''.'' @ pad_int 3 (msFromTime t) @ ''Z'')"
proof -
  note c = decode_at [OF assms(1-5)]
  have m: "pad_int 2 (m + 1) = two_digits (m + 1)"
    unfolding pad_int_def using assms(2,3) by (intro pad_two_digits) simp_all
  have d: "pad_int 2 d = two_digits d"
    unfolding pad_int_def using assms(4,5) MonthDays_bounds(2) [of y m]
    by (intro pad_two_digits) simp_all
  show ?thesis using assms(6,7) by (simp add: toISOString_def Let_def c m d)
qed

lemma replicate_small:
  "replicate 1 c = [c]" "replicate 2 c = [c, c]" "replicate 3 c = [c, c, c]"
  by (simp_all add: numeral_2_eq_2 numeral_3_eq_3)

lemma fallback_now:
  "getFullYear (fixed_zone 3600000) (Some 1755514800000) = Some 2025"
  "getMonth (fixed_zone 3600000) (Some 1755514800000) = Some 7"
  "getDate (fixed_zone 3600000) (Some 1755514800000) = Some 18"
proof -
  have now: "Day (LocalTime (fixed_zone 3600000) 1755514800000) = MakeDay 2025 7 18"
    by (simp add: Day_def LocalTime_fixed msPerDay_def civil_eval)
  have r: "(0::int) \<le> 7" "(7::int) \<le> 11" "(1::int) \<le> 18" "18 \<le> MonthDays 2025 7"
    by (simp_all add: civil_eval)
  note n = decode_at [OF now r]
  show "getFullYear (fixed_zone 3600000) (Some 1755514800000) = Some 2025"
    "getMonth (fixed_zone 3600000) (Some 1755514800000) = Some 7"
    "getDate (fixed_zone 3600000) (Some 1755514800000) = Some 18"
    using n by (simp_all add: getFullYear_def getMonth_def getDate_def)
qed

lemma fallback_midnights:
  assumes "0 \<le> i" "i \<le> 6"
  shows "newDate (fixed_zone 3600000) (Some 2025) (Some 7) (Some (18 + i)) = Some (1755471600000 + i * 86400000)"
proof -
  have "MakeDay 2025 7 (18 + i) = 20318 + i" by (simp add: civil_eval)
  then show ?thesis
    using assms by (simp add: newDate_Some day_start_fixed TimeClip_def msPerDay_def MakeFullYear_def)
qed

lemma fallback_iso_0:
  "toISOString (Some 1755471600000) = Inr ''2025-08-17T23:00:00.000Z''"
  by (rule trans [OF toISOString_civil [where y = 2025 and m = 7 and d = 17]])
    (simp_all add: Day_def msPerDay_def civil_eval string_eval HourFromTime_def MinFromTime_def
      SecFromTime_def msFromTime_def replicate_small)

lemma fallback_iso_1:
  "toISOString (Some 1755558000000) = Inr ''2025-08-18T23:00:00.000Z''"
  by (rule trans [OF toISOString_civil [where y = 2025 and m = 7 and d = 18]])
    (simp_all add: Day_def msPerDay_def civil_eval string_eval HourFromTime_def MinFromTime_def
      SecFromTime_def msFromTime_def replicate_small)

lemma fallback_iso_2:
  "toISOString (Some 1755644400000) = Inr ''2025-08-19T23:00:00.000Z''"
  by (rule trans [OF toISOString_civil [where y = 2025 and m = 7 and d = 19]])
    (simp_all add: Day_def msPerDay_def civil_eval string_eval HourFromTime_def MinFromTime_def
      SecFromTime_def msFromTime_def replicate_small)

lemma fallback_iso_3:
  "toISOString (Some 1755730800000) = Inr ''2025-08-20T23:00:00.000Z''"
  by (rule trans [OF toISOString_civil [where y = 2025 and m = 7 and d = 20]])
    (simp_all add: Day_def msPerDay_def civil_eval string_eval HourFromTime_def MinFromTime_def
      SecFromTime_def msFromTime_def replicate_small)

lemma fallback_iso_4:
  "toISOString (Some 1755817200000) = Inr ''2025-08-21T23:00:00.000Z''"
  by (rule trans [OF toISOString_civil [where y = 2025 and m = 7 and d = 21]])
    (simp_all add: Day_def msPerDay_def civil_eval string_eval HourFromTime_def MinFromTime_def
      SecFromTime_def msFromTime_def replicate_small)

lemma fallback_iso_5:
  "toISOString (Some 1755903600000) = Inr ''2025-08-22T23:00:00.000Z''"
  by (rule trans [OF toISOString_civil [where y = 2025 and m = 7 and d = 22]])
    (simp_all add: Day_def msPerDay_def civil_eval string_eval HourFromTime_def MinFromTime_def
      SecFromTime_def msFromTime_def replicate_small)

lemma fallback_iso_6:
  "toISOString (Some 1755990000000) = Inr ''2025-08-23T23:00:00.000Z''"
  by (rule trans [OF toISOString_civil [where y = 2025 and m = 7 and d = 23]])
    (simp_all add: Day_def msPerDay_def civil_eval string_eval HourFromTime_def MinFromTime_def
      SecFromTime_def msFromTime_def replicate_small)


lemmas fallback_iso =
  fallback_iso_0 fallback_iso_1 fallback_iso_2 fallback_iso_3 fallback_iso_4 fallback_iso_5
  fallback_iso_6

text \<open>
  C3. In a time zone one hour east of UTC, at noon of 18 August 2025 local time,
  \<open>fallbackWeather\<close> installs seven consecutive dates, and the first is 17 August: the
  day before the current local date, which is the one \<open>toDateKey\<close> gives. The dates are
  the UTC dates of the local midnights.
\<close>

theorem fallbackWeather_east_of_utc:
  "toDateKey (fixed_zone 3600000) (Some 1755514800000) = ''2025-08-18''
   \<and> map_sum id (\<lambda>s. map_option time (forecast s))
        (fallbackWeather (fixed_zone 3600000) 1755514800000 1755514800000 (initial_state 1755514800000))
     = Inr (Some [''2025-08-17'', ''2025-08-18'', ''2025-08-19'', ''2025-08-20'', ''2025-08-21'',
                  ''2025-08-22'', ''2025-08-23''])"
proof -
  have k: "toDateKey (fixed_zone 3600000) (Some 1755514800000) = ''2025-08-18''"
    by (rule trans [OF toDateKey_civil [where y = 2025 and m = 7 and d = 18]])
      (simp_all add: Day_def LocalTime_fixed msPerDay_def civil_eval string_eval)
  have b: "fallback_body (fixed_zone 3600000) (Some 1755514800000) i (ts, hi, lo, cs)
         = (case toISOString (Some (1755471600000 + i * 86400000)) of
              Inl e \<Rightarrow> Inl e
            | Inr isoString \<Rightarrow>
                Inr (ts @ [split_on CHR ''T'' isoString ! 0], hi @ [70 + i], lo @ [50 + i],
                     cs @ [codeOptions ! nat (i mod int (length codeOptions))]))"
    if "0 \<le> i" "i \<le> 6" for i ts hi lo cs
    using that by (simp add: fallback_body_def Let_def fallback_now nadd_def fallback_midnights)
  have l: "fallback_loop (fixed_zone 3600000) (Some 1755514800000) 0 ([], [], [], [])
         = Inr ([''2025-08-17'', ''2025-08-18'', ''2025-08-19'', ''2025-08-20'', ''2025-08-21'',
                  ''2025-08-22'', ''2025-08-23''],
                [70, 71, 72, 73, 74, 75, 76], [50, 51, 52, 53, 54, 55, 56],
                [1, 2, 3, 80, 0, 61, 95])"
    by (simp add: fallback_loop.simps b fallback_iso codeOptions_def)
  show ?thesis
    unfolding fallbackWeather_def l by (simp add: k renderWeather_def)
qed

section \<open>Properties of the event store\<close>

lemma indexOf_notin: "x \<notin> set xs \<Longrightarrow> indexOf xs x = - 1"
  by (induction xs) (auto simp: Let_def)

lemma indexOf_in:
  "x \<in> set xs \<Longrightarrow>
     0 \<le> indexOf xs x \<and> nat (indexOf xs x) < length xs \<and> xs ! nat (indexOf xs x) = x"
proof (induction xs)
  case Nil
  then show ?case by simp
next
  case (Cons y ys)
  show ?case
  proof (cases "y = x")
    case True
    then show ?thesis by simp
  next
    case False
    then have "x \<in> set ys" using Cons.prems by simp
    then have "0 \<le> indexOf ys x" "nat (indexOf ys x) < length ys" "ys ! nat (indexOf ys x) = x"
      using Cons.IH by simp_all
    then show ?thesis using False by (simp add: Let_def nat_add_distrib)
  qed
qed

lemma indexOf_append_fresh: "x \<notin> set xs \<Longrightarrow> indexOf (xs @ [x]) x = int (length xs)"
  by (induction xs) (auto simp: Let_def)

lemma splice1_last: "splice1 (xs @ [x]) (length xs) = xs"
  by (simp add: splice1_def)

lemma addEvent_eventsOn:
  "eventsOn (addEvent k e s) k' =
     (if k' = k then eventsOn s k @ [length (heap s)] else eventsOn s k')"
  by (simp add: addEvent_def eventsOn_def Let_def)

lemma addEvent_heap: "heap (addEvent k e s) = heap s @ [e]"
  by (simp add: addEvent_def Let_def)

lemma removeEvent_heap: "heap (removeEvent k r s) = heap s"
  by (simp add: removeEvent_def Let_def)

lemma removeEvent_eventsOn:
  "eventsOn (removeEvent k r s) k' =
     (if k' = k
      then (if indexOf (eventsOn s k) r > - 1
            then splice1 (eventsOn s k) (nat (indexOf (eventsOn s k) r)) else eventsOn s k)
      else eventsOn s k')"
  by (simp add: removeEvent_def eventsOn_def Let_def)

lemma save_and_render_heap: "heap (save_and_render s) = heap s"
  by (simp add: save_and_render_def renderCalendar_def renderPlanner_def saveEvents_def
      split: option.splits)

lemma save_and_render_store: "STUB_EVENTS (save_and_render s) = STUB_EVENTS s"
  by (simp add: save_and_render_def renderCalendar_def renderPlanner_def saveEvents_def
      split: option.splits)

lemma save_and_render_eventsOn: "eventsOn (save_and_render s) k = eventsOn s k"
  by (simp add: eventsOn_def save_and_render_store)

lemma bucket_write_back:
  "STUB_EVENTS s key \<noteq> None \<Longrightarrow> (STUB_EVENTS s)(key \<mapsto> eventsOn s key) = STUB_EVENTS s"
  by (auto simp: eventsOn_def fun_eq_iff)

text \<open>
  C10. Deleting an event reference that is not in the list of the date-key changes no event
  object and no date's event list, and the store becomes the old store with the bucket of
  the key written back. A delete handler exists only for an event that \<open>renderPlanner\<close>
  found in the bucket of the key, and a bucket is taken away only together with a new
  rendering of the planner, so the key of a handler that can be clicked has a bucket: then
  the store after the click is the store before it.
\<close>

theorem delete_absent_keeps_lists:
  assumes "ev \<notin> set (eventsOn s key)"
  shows "heap (delete_click key ev s) = heap s
       \<and> (\<forall>k. eventsOn (delete_click key ev s) k = eventsOn s k)
       \<and> STUB_EVENTS (delete_click key ev s) = (STUB_EVENTS s)(key \<mapsto> eventsOn s key)
       \<and> (STUB_EVENTS s key \<noteq> None \<longrightarrow> STUB_EVENTS (delete_click key ev s) = STUB_EVENTS s)"
proof -
  have i: "indexOf (eventsOn s key) ev = - 1" using assms by (rule indexOf_notin)
  have st: "STUB_EVENTS (delete_click key ev s) = (STUB_EVENTS s)(key \<mapsto> eventsOn s key)"
    by (simp add: delete_click_def save_and_render_store removeEvent_def Let_def i)
  have h: "heap (delete_click key ev s) = heap s"
    by (simp add: delete_click_def save_and_render_heap removeEvent_heap)
  have e: "\<forall>k. eventsOn (delete_click key ev s) k = eventsOn s k"
    by (simp add: delete_click_def save_and_render_eventsOn removeEvent_eventsOn i)
  show ?thesis using st h e bucket_write_back [of s key] by simp
qed

theorem delete_absent_keeps_lists_witness:
  "0 \<notin> set (eventsOn (initial_state 0) ''2025-08-19'')
   \<and> heap (delete_click ''2025-08-19'' 0 (initial_state 0)) = heap (initial_state 0)
   \<and> STUB_EVENTS (delete_click ''2025-08-19'' 0 (initial_state 0)) = STUB_EVENTS (initial_state 0)"
proof -
  have a: "0 \<notin> set (eventsOn (initial_state 0) ''2025-08-19'')"
    by (simp add: eventsOn_def initial_state_def initial_events_def)
  have b: "STUB_EVENTS (initial_state 0) ''2025-08-19'' \<noteq> None"
    by (simp add: initial_state_def initial_events_def)
  note t = delete_absent_keeps_lists [OF a]
  from t have h: "heap (delete_click ''2025-08-19'' 0 (initial_state 0)) = heap (initial_state 0)"
    by (rule conjunct1)
  from t b have st: "STUB_EVENTS (delete_click ''2025-08-19'' 0 (initial_state 0))
                   = STUB_EVENTS (initial_state 0)"
    by blast
  show ?thesis using a h st by simp
qed

lemma planner_add_click_adds:
  assumes "t \<noteq> []"
  shows "\<exists>e. planner_add_click z (Some t) timeRange s
            = save_and_render (addEvent (toDateKey z (selectedDate s)) e s)"
  using assms by (auto simp: planner_add_click_def Let_def split: option.splits prod.splits)

lemma add_remove_core:
  assumes fresh: "\<forall>r \<in> set (eventsOn s k). r < length (heap s)"
    and s1: "eventsOn s1 = eventsOn (addEvent k e s)" "heap s1 = heap (addEvent k e s)"
  shows "(\<forall>k'. eventsOn (removeEvent k (length (heap s)) s1) k' = eventsOn s k')
       \<and> map ((!) (heap (removeEvent k (length (heap s)) s1))) (eventsOn s k)
           = map ((!) (heap s)) (eventsOn s k)"
proof -
  have nin: "length (heap s) \<notin> set (eventsOn s k)" using fresh by auto
  have i: "indexOf (eventsOn s k @ [length (heap s)]) (length (heap s)) = int (length (eventsOn s k))"
    using nin by (rule indexOf_append_fresh)
  have a: "\<forall>k'. eventsOn (removeEvent k (length (heap s)) s1) k' = eventsOn s k'"
    by (simp add: removeEvent_eventsOn s1 addEvent_eventsOn i splice1_last)
  have b: "map ((!) (heap (removeEvent k (length (heap s)) s1))) (eventsOn s k)
           = map ((!) (heap s)) (eventsOn s k)"
    using fresh by (simp add: removeEvent_heap s1 addEvent_heap nth_append)
  show ?thesis using a b by simp
qed

text \<open>
  C4. Adding an event on a date-key and then deleting that same event (the object the add
  created) leaves the event list of the date-key, and the events in it, as they were before
  the add, and every other date's list too. The hypothesis says that the bucket refers only
  to existing event objects, so that the new object is distinct from them. The first part
  is about the two store operations on any date-key, the second about the two click
  handlers, where the add button uses the key of the selected date.
\<close>

theorem add_then_delete_restores:
  assumes "\<forall>r \<in> set (eventsOn s k). r < length (heap s)"
  shows "(let s2 = removeEvent k (length (heap s)) (addEvent k e s)
          in eventsOn s2 k = eventsOn s k
           \<and> map ((!) (heap s2)) (eventsOn s2 k) = map ((!) (heap s)) (eventsOn s k)
           \<and> (\<forall>k'. eventsOn s2 k' = eventsOn s k'))
       \<and> (t \<noteq> [] \<and> k = toDateKey z (selectedDate s) \<longrightarrow>
            (let s2 = delete_click k (length (heap s)) (planner_add_click z (Some t) timeRange s)
             in eventsOn s2 k = eventsOn s k
              \<and> map ((!) (heap s2)) (eventsOn s2 k) = map ((!) (heap s)) (eventsOn s k)
              \<and> (\<forall>k'. eventsOn s2 k' = eventsOn s k')))"
proof -
  have core: "let s2 = removeEvent k (length (heap s)) (addEvent k e s)
          in eventsOn s2 k = eventsOn s k
           \<and> map ((!) (heap s2)) (eventsOn s2 k) = map ((!) (heap s)) (eventsOn s k)
           \<and> (\<forall>k'. eventsOn s2 k' = eventsOn s k')"
    using add_remove_core [OF assms, of "addEvent k e s" e] by (simp add: Let_def)
  have click: "let s2 = delete_click k (length (heap s)) (planner_add_click z (Some t) timeRange s)
             in eventsOn s2 k = eventsOn s k
              \<and> map ((!) (heap s2)) (eventsOn s2 k) = map ((!) (heap s)) (eventsOn s k)
              \<and> (\<forall>k'. eventsOn s2 k' = eventsOn s k')"
    if t: "t \<noteq> []" and k: "k = toDateKey z (selectedDate s)"
  proof -
    obtain e' where e': "planner_add_click z (Some t) timeRange s = save_and_render (addEvent k e' s)"
      using planner_add_click_adds [OF t] k by blast
    have 1: "eventsOn (save_and_render (addEvent k e' s)) = eventsOn (addEvent k e' s)"
      by (rule ext) (rule save_and_render_eventsOn)
    have 2: "heap (save_and_render (addEvent k e' s)) = heap (addEvent k e' s)"
      by (rule save_and_render_heap)
    note c = add_remove_core [OF assms 1 2]
    show ?thesis
      using c by (simp add: Let_def e' delete_click_def save_and_render_eventsOn save_and_render_heap)
  qed
  show ?thesis using core click by blast
qed

theorem add_then_delete_restores_witness:
  "eventsOn (initial_state 1755518400000) ''2025-08-18'' = [0, 1, 2, 3]
   \<and> length (heap (initial_state 1755518400000)) = 7
   \<and> toDateKey (fixed_zone 0) (selectedDate (initial_state 1755518400000)) = ''2025-08-18''
   \<and> eventsOn (delete_click ''2025-08-18'' 7
        (planner_add_click (fixed_zone 0) (Some (ascii ''Lunch'')) (Some (ascii ''12:00-13:00'')) (initial_state 1755518400000)))
        ''2025-08-18'' = [0, 1, 2, 3]"
proof -
  have a: "\<forall>r \<in> set (eventsOn (initial_state 1755518400000) ''2025-08-18''). r < length (heap (initial_state 1755518400000))"
    by (simp add: eventsOn_def initial_state_def initial_events_def initial_heap_def)
  have k: "toDateKey (fixed_zone 0) (selectedDate (initial_state 1755518400000)) = ''2025-08-18''"
    unfolding initial_state_def app_state.simps
    by (rule trans [OF toDateKey_civil [where y = 2025 and m = 7 and d = 18]])
      (simp_all add: Day_def LocalTime_fixed msPerDay_def civil_eval string_eval)
  have l: "length (heap (initial_state 1755518400000)) = 7"
    by (simp add: initial_state_def initial_heap_def)
  have e: "eventsOn (initial_state 1755518400000) ''2025-08-18'' = [0, 1, 2, 3]"
    by (simp add: eventsOn_def initial_state_def initial_events_def)
  have t: "ascii ''Lunch'' \<noteq> []" by (simp add: ascii_def)
  from add_then_delete_restores [OF a, where t = "ascii ''Lunch''" and z = "fixed_zone 0"
      and timeRange = "Some (ascii ''12:00-13:00'')"] t k [symmetric]
  have "eventsOn (delete_click ''2025-08-18'' (length (heap (initial_state 1755518400000)))
        (planner_add_click (fixed_zone 0) (Some (ascii ''Lunch'')) (Some (ascii ''12:00-13:00'')) (initial_state 1755518400000)))
        ''2025-08-18'' = eventsOn (initial_state 1755518400000) ''2025-08-18''"
    by (simp add: Let_def)
  then show ?thesis using k by (simp add: l e)
qed

lemma snapshot_effects [simp]: "snapshot (s\<lparr>effects := e\<rparr>) = snapshot s"
  by (simp add: snapshot_def)

lemma save_and_render_effects:
  "effects (save_and_render s) = effects s @ save_request s @ [RenderPlanner, RenderCalendar]"
  by (simp add: save_and_render_def renderCalendar_def renderPlanner_def saveEvents_def
      save_request_def split: option.splits)

lemma save_request_save_and_render: "save_request (save_and_render s) = save_request s"
  by (simp add: save_request_def save_and_render_def renderCalendar_def renderPlanner_def
      saveEvents_def snapshot_def split: option.splits)

lemma save_and_render_tail:
  "effects (save_and_render s) =
     effects s @ save_request (save_and_render s) @ [RenderPlanner, RenderCalendar]"
  by (simp add: save_and_render_effects save_request_save_and_render)

lemma title_step_found:
  assumes "ev \<in> set eventsForDay"
  shows "title_step h eventsForDay (indexOf eventsForDay ev) newTitle =
           (case newTitle of None \<Rightarrow> h
            | Some t \<Rightarrow> if trim t = [] then h else h[ev := (h ! ev)\<lparr>title := trim t\<rparr>])"
  using indexOf_in [OF assms]
  by (simp add: title_step_def set_title_def Let_def split: option.splits)

lemma time_step_found:
  assumes "ev \<in> set eventsForDay"
  shows "time_step h eventsForDay (indexOf eventsForDay ev) timeInput =
           (case timeInput of None \<Rightarrow> h
            | Some ti \<Rightarrow>
                if trim ti = [] \<or> length (split_on (of_char CHR ''-'') ti) \<noteq> 2 then h
                else h[ev := (h ! ev)\<lparr>start := trim (split_on (of_char CHR ''-'') ti ! 0),
                                       endTime := trim (split_on (of_char CHR ''-'') ti ! 1)\<rparr>])"
  using indexOf_in [OF assms]
  by (simp add: time_step_def set_times_def Let_def split: option.splits)

lemma edit_click_stores:
  assumes "ev \<in> set (eventsOn s key)"
  shows "STUB_EVENTS (allday_edit_click key ev inp s) = STUB_EVENTS s"
    and "STUB_EVENTS (timed_edit_click key ev inp tinp s) = STUB_EVENTS s"
proof -
  note i = indexOf_in [OF assms]
  have b: "STUB_EVENTS s key \<noteq> None"
    using assms by (cases "STUB_EVENTS s key") (simp_all add: eventsOn_def)
  note wb = bucket_write_back [OF b]
  show "STUB_EVENTS (allday_edit_click key ev inp s) = STUB_EVENTS s"
    using i by (cases inp) (simp_all add: allday_edit_click_def Let_def save_and_render_store wb)
  show "STUB_EVENTS (timed_edit_click key ev inp tinp s) = STUB_EVENTS s"
    by (simp add: timed_edit_click_def Let_def save_and_render_store wb)
qed

lemma edit_click_heaps:
  assumes "ev \<in> set (eventsOn s key)"
  shows "heap (allday_edit_click key ev inp s) = title_step (heap s) (eventsOn s key) (indexOf (eventsOn s key) ev) inp"
    and "heap (timed_edit_click key ev inp tinp s)
           = time_step (title_step (heap s) (eventsOn s key) (indexOf (eventsOn s key) ev) inp)
               (eventsOn s key) (indexOf (eventsOn s key) ev) tinp"
proof -
  note i = indexOf_in [OF assms]
  show "heap (allday_edit_click key ev inp s) = title_step (heap s) (eventsOn s key) (indexOf (eventsOn s key) ev) inp"
    using i
    by (cases inp) (simp_all add: allday_edit_click_def title_step_def Let_def save_and_render_heap)
  show "heap (timed_edit_click key ev inp tinp s)
           = time_step (title_step (heap s) (eventsOn s key) (indexOf (eventsOn s key) ev) inp)
               (eventsOn s key) (indexOf (eventsOn s key) ev) tinp"
    by (simp add: timed_edit_click_def Let_def save_and_render_heap)
qed

lemma title_frame:
  assumes h: "h1 = (case inp of None \<Rightarrow> h
            | Some t \<Rightarrow> if trim t = [] then h else h[ev := (h ! ev)\<lparr>title := trim t\<rparr>])"
    and ev: "ev < length h"
  shows "length h1 = length h
       \<and> (\<forall>r. r \<noteq> ev \<longrightarrow> h1 ! r = h ! r)
       \<and> start (h1 ! ev) = start (h ! ev) \<and> endTime (h1 ! ev) = endTime (h ! ev)
       \<and> allDay (h1 ! ev) = allDay (h ! ev) \<and> color (h1 ! ev) = color (h ! ev)
       \<and> title (h1 ! ev) =
           (case inp of None \<Rightarrow> title (h ! ev)
            | Some t \<Rightarrow> if trim t = [] then title (h ! ev) else trim t)
       \<and> (inp = None \<or> (\<exists>t. inp = Some t \<and> trim t = []) \<longrightarrow> h1 = h)"
  using ev unfolding h by (cases inp) auto

lemma time_frame:
  assumes h: "h2 = (case tinp of None \<Rightarrow> h1
            | Some ti \<Rightarrow>
                if trim ti = [] \<or> length (split_on (of_char CHR ''-'') ti) \<noteq> 2 then h1
                else h1[ev := (h1 ! ev)\<lparr>start := trim (split_on (of_char CHR ''-'') ti ! 0),
                                         endTime := trim (split_on (of_char CHR ''-'') ti ! 1)\<rparr>])"
    and ev: "ev < length h1"
  shows "length h2 = length h1
       \<and> (\<forall>r. r \<noteq> ev \<longrightarrow> h2 ! r = h1 ! r)
       \<and> title (h2 ! ev) = title (h1 ! ev)
       \<and> allDay (h2 ! ev) = allDay (h1 ! ev) \<and> color (h2 ! ev) = color (h1 ! ev)
       \<and> (tinp = None
            \<or> (\<exists>ti. tinp = Some ti
                  \<and> (trim ti = [] \<or> length (split_on (of_char CHR ''-'') ti) \<noteq> 2)) \<longrightarrow> h2 = h1)"
  using ev unfolding h by (cases tinp) auto

lemma trim_examples:
  "trim (ascii '' Bins '') = ascii ''Bins''"
  "trim (0xA0 # ascii ''Bins'' @ [0x2028]) = ascii ''Bins''"
  "trim [0xA0, 0x20] = []"
  "trim (ascii ''  '') = []"
  by (simp_all add: trim_def is_space_def ascii_def)

text \<open>
  C5. For an event of the bucket of a date-key, the edit handlers (the edit icon of an
  all-day chip, which asks for the title, and the edit icon of a timed row, which asks for
  the title and then for the times), whatever is entered, leave the store of buckets, every
  other event object and the fields allDay and color of the event as they were, and the
  title becomes the trimmed input when that is not empty and stays when the prompt is
  cancelled (\<open>None\<close>) or the input is empty or blank. The edit of the title alone (the
  all-day handler, and the timed handler when its time prompt is cancelled, left blank or
  not of the form of two parts around one dash) also leaves start and end as they were; and
  then a cancelled, empty or blank title leaves every event object, so the whole event,
  unchanged. Blank is what \<open>trim\<close> of the language empties.
\<close>

theorem edit_title_changes_only_title:
  assumes "ev \<in> set (eventsOn s key)" "ev < length (heap s)"
  shows "(s' = allday_edit_click key ev inp s \<or> s' = timed_edit_click key ev inp tinp s \<longrightarrow>
            STUB_EVENTS s' = STUB_EVENTS s
          \<and> length (heap s') = length (heap s)
          \<and> (\<forall>r. r \<noteq> ev \<longrightarrow> heap s' ! r = heap s ! r)
          \<and> allDay (heap s' ! ev) = allDay (heap s ! ev)
          \<and> color (heap s' ! ev) = color (heap s ! ev)
          \<and> title (heap s' ! ev) =
              (case inp of
                 None \<Rightarrow> title (heap s ! ev)
               | Some t \<Rightarrow> if trim t = [] then title (heap s ! ev) else trim t))
       \<and> (s' = allday_edit_click key ev inp s
            \<or> s' = timed_edit_click key ev inp tinp s
              \<and> (tinp = None
                  \<or> (\<exists>ti. tinp = Some ti
                        \<and> (trim ti = [] \<or> length (split_on (of_char CHR ''-'') ti) \<noteq> 2))) \<longrightarrow>
            start (heap s' ! ev) = start (heap s ! ev)
          \<and> endTime (heap s' ! ev) = endTime (heap s ! ev)
          \<and> (inp = None \<or> (\<exists>t. inp = Some t \<and> trim t = []) \<longrightarrow> heap s' = heap s))"
proof -
  define h1 where "h1 = title_step (heap s) (eventsOn s key) (indexOf (eventsOn s key) ev) inp"
  define h2 where "h2 = time_step h1 (eventsOn s key) (indexOf (eventsOn s key) ev) tinp"
  have e1: "h1 = (case inp of None \<Rightarrow> heap s
            | Some t \<Rightarrow> if trim t = [] then heap s else (heap s)[ev := (heap s ! ev)\<lparr>title := trim t\<rparr>])"
    unfolding h1_def by (rule title_step_found [OF assms(1)])
  have e2: "h2 = (case tinp of None \<Rightarrow> h1
            | Some ti \<Rightarrow>
                if trim ti = [] \<or> length (split_on (of_char CHR ''-'') ti) \<noteq> 2 then h1
                else h1[ev := (h1 ! ev)\<lparr>start := trim (split_on (of_char CHR ''-'') ti ! 0),
                                         endTime := trim (split_on (of_char CHR ''-'') ti ! 1)\<rparr>])"
    unfolding h2_def by (rule time_step_found [OF assms(1)])
  note f1 = title_frame [OF e1 assms(2)]
  have l1: "ev < length h1" using f1 assms(2) by simp
  note f2 = time_frame [OF e2 l1]
  note st = edit_click_stores [OF assms(1)]
  note hp = edit_click_heaps(1) [OF assms(1), of inp, folded h1_def]
    edit_click_heaps(2) [OF assms(1), of inp tinp, folded h1_def, folded h2_def]
  have A: "STUB_EVENTS s' = STUB_EVENTS s
          \<and> length (heap s') = length (heap s)
          \<and> (\<forall>r. r \<noteq> ev \<longrightarrow> heap s' ! r = heap s ! r)
          \<and> allDay (heap s' ! ev) = allDay (heap s ! ev)
          \<and> color (heap s' ! ev) = color (heap s ! ev)
          \<and> title (heap s' ! ev) =
              (case inp of
                 None \<Rightarrow> title (heap s ! ev)
               | Some t \<Rightarrow> if trim t = [] then title (heap s ! ev) else trim t)"
    if "s' = allday_edit_click key ev inp s \<or> s' = timed_edit_click key ev inp tinp s"
    using that
  proof
    assume "s' = allday_edit_click key ev inp s"
    then have "heap s' = h1" "STUB_EVENTS s' = STUB_EVENTS s" using hp(1) st(1) by simp_all
    then show ?thesis using f1 by simp
  next
    assume "s' = timed_edit_click key ev inp tinp s"
    then have "heap s' = h2" "STUB_EVENTS s' = STUB_EVENTS s" using hp(2) st(2) by simp_all
    then show ?thesis using f1 f2 by simp
  qed
  have B: "start (heap s' ! ev) = start (heap s ! ev)
          \<and> endTime (heap s' ! ev) = endTime (heap s ! ev)
          \<and> (inp = None \<or> (\<exists>t. inp = Some t \<and> trim t = []) \<longrightarrow> heap s' = heap s)"
    if "s' = allday_edit_click key ev inp s
            \<or> s' = timed_edit_click key ev inp tinp s
              \<and> (tinp = None
                  \<or> (\<exists>ti. tinp = Some ti
                        \<and> (trim ti = [] \<or> length (split_on (of_char CHR ''-'') ti) \<noteq> 2)))"
    using that
  proof
    assume "s' = allday_edit_click key ev inp s"
    then have "heap s' = h1" using hp(1) by simp
    then show ?thesis using f1 by simp
  next
    assume a: "s' = timed_edit_click key ev inp tinp s
              \<and> (tinp = None
                  \<or> (\<exists>ti. tinp = Some ti
                        \<and> (trim ti = [] \<or> length (split_on (of_char CHR ''-'') ti) \<noteq> 2)))"
    then have "heap s' = h2" using hp(2) by simp
    moreover have "h2 = h1" using f2 a by blast
    ultimately show ?thesis using f1 by simp
  qed
  show ?thesis using A B by blast
qed

theorem edit_title_changes_only_title_witness:
  "title (heap (allday_edit_click ''2025-08-18'' 0 (Some (ascii '' Bins '')) (initial_state 0)) ! 0)
     = ascii ''Bins''
   \<and> start (heap (allday_edit_click ''2025-08-18'' 0 (Some (ascii '' Bins '')) (initial_state 0)) ! 0)
     = ascii ''00:00''
   \<and> heap (allday_edit_click ''2025-08-18'' 0 (Some (ascii '' Bins '')) (initial_state 0)) ! 1
     = heap (initial_state 0) ! 1
   \<and> title (heap (timed_edit_click ''2025-08-18'' 2 (Some (0xA0 # ascii ''Bins'' @ [0x2028])) None
               (initial_state 0)) ! 2)
     = ascii ''Bins''
   \<and> heap (timed_edit_click ''2025-08-18'' 2 (Some [0xA0, 0x20]) (Some (ascii ''  ''))
              (initial_state 0))
     = heap (initial_state 0)"
proof -
  have a: "0 \<in> set (eventsOn (initial_state 0) ''2025-08-18'')"
    "2 \<in> set (eventsOn (initial_state 0) ''2025-08-18'')"
    by (simp_all add: eventsOn_def initial_state_def initial_events_def)
  have l: "0 < length (heap (initial_state 0))" "2 < length (heap (initial_state 0))"
    by (simp_all add: initial_state_def initial_heap_def)
  have h0: "start (heap (initial_state 0) ! 0) = ascii ''00:00''"
    by (simp add: initial_state_def initial_heap_def)
  note t1 = edit_title_changes_only_title [OF a(1) l(1),
      where s' = "allday_edit_click ''2025-08-18'' 0 (Some (ascii '' Bins '')) (initial_state 0)"
        and inp = "Some (ascii '' Bins '')"]
  note t2 = edit_title_changes_only_title [OF a(2) l(2),
      where s' = "timed_edit_click ''2025-08-18'' 2 (Some (0xA0 # ascii ''Bins'' @ [0x2028])) None
                    (initial_state 0)"
        and inp = "Some (0xA0 # ascii ''Bins'' @ [0x2028])" and tinp = None]
  note t3 = edit_title_changes_only_title [OF a(2) l(2),
      where s' = "timed_edit_click ''2025-08-18'' 2 (Some [0xA0, 0x20]) (Some (ascii ''  ''))
                    (initial_state 0)"
        and inp = "Some [0xA0, 0x20]" and tinp = "Some (ascii ''  '')"]
  have ne: "ascii ''Bins'' \<noteq> []" by (simp add: ascii_def)
  from t1 have 1: "title (heap (allday_edit_click ''2025-08-18'' 0 (Some (ascii '' Bins '')) (initial_state 0)) ! 0)
     = ascii ''Bins''"
    by (simp add: trim_examples ne)
  from t1 have 2: "start (heap (allday_edit_click ''2025-08-18'' 0 (Some (ascii '' Bins '')) (initial_state 0)) ! 0)
     = ascii ''00:00''"
    by (simp add: h0)
  from t1 have 3: "heap (allday_edit_click ''2025-08-18'' 0 (Some (ascii '' Bins '')) (initial_state 0)) ! 1
     = heap (initial_state 0) ! 1"
    by simp
  from t2 have 4: "title (heap (timed_edit_click ''2025-08-18'' 2 (Some (0xA0 # ascii ''Bins'' @ [0x2028])) None
               (initial_state 0)) ! 2)
     = ascii ''Bins''"
    by (simp add: trim_examples ne)
  from t3 have 5: "heap (timed_edit_click ''2025-08-18'' 2 (Some [0xA0, 0x20]) (Some (ascii ''  ''))
              (initial_state 0))
     = heap (initial_state 0)"
    by (simp add: trim_examples)
  show ?thesis using 1 2 3 4 5 by simp
qed

text \<open>
  C6, as the code has it. The delete path, the edit path of a timed row and the
  confirm-gated fallback paths (of chips and of rows) always end by sending the save
  request of the signed-in user and rendering the planner and the calendar, whatever the
  user answers to the prompts. The edit icon of an all-day chip does so only when a title
  that is not blank (not emptied by \<open>trim\<close>) was entered and the event is in the bucket;
  otherwise it does nothing at all: no save and no render.
\<close>

theorem planner_paths_save_and_render:
  "effects (delete_click key ev s)
     = effects s @ save_request (delete_click key ev s) @ [RenderPlanner, RenderCalendar]
   \<and> effects (timed_edit_click key ev newTitle timeInput s)
     = effects s @ save_request (timed_edit_click key ev newTitle timeInput s)
         @ [RenderPlanner, RenderCalendar]
   \<and> effects (allday_fallback_click key ev del newTitle s)
     = effects s @ save_request (allday_fallback_click key ev del newTitle s)
         @ [RenderPlanner, RenderCalendar]
   \<and> effects (timed_fallback_click key ev del newTitle timeInput s)
     = effects s @ save_request (timed_fallback_click key ev del newTitle timeInput s)
         @ [RenderPlanner, RenderCalendar]
   \<and> (if (\<exists>t. newTitle = Some t \<and> trim t \<noteq> []) \<and> ev \<in> set (eventsOn s key)
       then effects (allday_edit_click key ev newTitle s)
              = effects s @ save_request (allday_edit_click key ev newTitle s)
                  @ [RenderPlanner, RenderCalendar]
       else allday_edit_click key ev newTitle s = s)"
proof -
  have 1: "effects (delete_click key ev s)
     = effects s @ save_request (delete_click key ev s) @ [RenderPlanner, RenderCalendar]"
    unfolding delete_click_def by (simp add: save_and_render_tail removeEvent_def Let_def)
  have 2: "effects (timed_edit_click key ev newTitle timeInput s)
     = effects s @ save_request (timed_edit_click key ev newTitle timeInput s)
         @ [RenderPlanner, RenderCalendar]"
    unfolding timed_edit_click_def Let_def by (simp add: save_and_render_tail)
  have 3: "effects (allday_fallback_click key ev del newTitle s)
     = effects s @ save_request (allday_fallback_click key ev del newTitle s)
         @ [RenderPlanner, RenderCalendar]"
    unfolding allday_fallback_click_def Let_def by (simp add: save_and_render_tail)
  have 4: "effects (timed_fallback_click key ev del newTitle timeInput s)
     = effects s @ save_request (timed_fallback_click key ev del newTitle timeInput s)
         @ [RenderPlanner, RenderCalendar]"
    unfolding timed_fallback_click_def Let_def by (simp add: save_and_render_tail)
  have 5: "(if (\<exists>t. newTitle = Some t \<and> trim t \<noteq> []) \<and> ev \<in> set (eventsOn s key)
       then effects (allday_edit_click key ev newTitle s)
              = effects s @ save_request (allday_edit_click key ev newTitle s)
                  @ [RenderPlanner, RenderCalendar]
       else allday_edit_click key ev newTitle s = s)"
  proof (cases "ev \<in> set (eventsOn s key)")
    case True
    note i = indexOf_in [OF True]
    show ?thesis using True i
      by (cases newTitle) (simp_all add: allday_edit_click_def Let_def save_and_render_tail)
  next
    case False
    then have "indexOf (eventsOn s key) ev = - 1" by (rule indexOf_notin)
    then show ?thesis using False
      by (cases newTitle) (simp_all add: allday_edit_click_def Let_def)
  qed
  show ?thesis using 1 2 3 4 5 by blast
qed

theorem planner_paths_save_and_render_witness:
  "effects (delete_click ''2025-08-18'' 0 ((initial_state 0)\<lparr>currentUser := Some ''bob''\<rparr>))
     = save_request (delete_click ''2025-08-18'' 0 ((initial_state 0)\<lparr>currentUser := Some ''bob''\<rparr>))
         @ [RenderPlanner, RenderCalendar]
   \<and> allday_edit_click ''2025-08-18'' 0 (Some [0xA0, 0x20]) ((initial_state 0)\<lparr>currentUser := Some ''bob''\<rparr>)
     = (initial_state 0)\<lparr>currentUser := Some ''bob''\<rparr>"
proof -
  have c: "trim [0xA0, 0x20] = []" by (rule trim_examples)
  have e: "effects ((initial_state 0)\<lparr>currentUser := Some ''bob''\<rparr>) = []"
    by (simp add: initial_state_def)
  from planner_paths_save_and_render [of "''2025-08-18''" 0 "(initial_state 0)\<lparr>currentUser := Some ''bob''\<rparr>"
      "Some [0xA0, 0x20]"]
  show ?thesis using c e by simp
qed

text \<open>
  C6 as stated fails on the edit icon of an all-day chip: when the signed-in user cancels
  the title prompt, nothing is saved and neither view is rendered.
\<close>

theorem allday_edit_cancel_no_render:
  "currentUser ((initial_state 0)\<lparr>currentUser := Some ''bob''\<rparr>) = Some ''bob''
   \<and> 0 \<in> set (eventsOn ((initial_state 0)\<lparr>currentUser := Some ''bob''\<rparr>) ''2025-08-18'')
   \<and> effects (allday_edit_click ''2025-08-18'' 0 None ((initial_state 0)\<lparr>currentUser := Some ''bob''\<rparr>))
       = effects ((initial_state 0)\<lparr>currentUser := Some ''bob''\<rparr>)
   \<and> RenderPlanner \<notin> set (effects (allday_edit_click ''2025-08-18'' 0 None ((initial_state 0)\<lparr>currentUser := Some ''bob''\<rparr>)))
   \<and> RenderCalendar \<notin> set (effects (allday_edit_click ''2025-08-18'' 0 None ((initial_state 0)\<lparr>currentUser := Some ''bob''\<rparr>)))"
  by (simp add: allday_edit_click_def Let_def initial_state_def eventsOn_def initial_events_def)

section \<open>Properties of the two services\<close>

lemma select_user_update_password:
  "select_user u (update_password i p db)
     = map (\<lambda>r. if uid r = i then r\<lparr>password := p\<rparr> else r) (select_user u db)"
  by (simp add: select_user_def update_password_def filter_map comp_def if_distrib [of username]
      cong: if_cong)

lemma changePassword_unfold:
  assumes "\<not> falsy (p_username payload)" "action payload = Some ''changePassword''"
  shows "auth_handler ''POST'' (AuthPayload payload) db =
     (if falsy (p_password payload) \<or> falsy (p_newPassword payload)
      then (Inr \<lparr>statusCode = 400, body = ErrorBody ''Missing password parameters''\<rparr>, db)
      else case select_user (the (p_username payload)) db of
             [] \<Rightarrow> (Inr \<lparr>statusCode = 401, body = ErrorBody ''Invalid credentials''\<rparr>, db)
           | r # _ \<Rightarrow>
               if Some (password r) \<noteq> p_password payload
               then (Inr \<lparr>statusCode = 401, body = ErrorBody ''Invalid credentials''\<rparr>, db)
               else (Inr \<lparr>statusCode = 200, body = StatusBody ''ok''\<rparr>,
                     update_password (uid r) (the (p_newPassword payload)) db))"
  using assms by (simp add: auth_handler_def Let_def falsy_def)

text \<open>
  C7. For a \<open>changePassword\<close> request (a POST whose payload names the action and a user):
  when the password or the new password is missing, the answer is 400 and the database is
  as before; when both are given and the password stored for the user is not the one
  supplied (also when there is no such user), the answer is 401 and the database is as
  before; otherwise the answer is 200, the password stored for the user is the new one, the
  rows of the other users (those with another id) and the events are as before.
\<close>

theorem changePassword_cases:
  assumes "\<not> falsy (p_username payload)" "action payload = Some ''changePassword''"
  shows "(falsy (p_password payload) \<or> falsy (p_newPassword payload) \<longrightarrow>
            auth_handler ''POST'' (AuthPayload payload) db
              = (Inr \<lparr>statusCode = 400, body = ErrorBody ''Missing password parameters''\<rparr>, db))
       \<and> (\<not> falsy (p_password payload) \<and> \<not> falsy (p_newPassword payload)
            \<and> stored_password (the (p_username payload)) db \<noteq> p_password payload \<longrightarrow>
            auth_handler ''POST'' (AuthPayload payload) db
              = (Inr \<lparr>statusCode = 401, body = ErrorBody ''Invalid credentials''\<rparr>, db))
       \<and> (\<not> falsy (p_password payload) \<and> \<not> falsy (p_newPassword payload)
            \<and> stored_password (the (p_username payload)) db = p_password payload \<longrightarrow>
            fst (auth_handler ''POST'' (AuthPayload payload) db)
              = Inr \<lparr>statusCode = 200, body = StatusBody ''ok''\<rparr>
            \<and> stored_password (the (p_username payload)) (snd (auth_handler ''POST'' (AuthPayload payload) db))
              = p_newPassword payload
            \<and> (\<exists>i. users (snd (auth_handler ''POST'' (AuthPayload payload) db))
                  = map (\<lambda>r. if uid r = i then r\<lparr>password := the (p_newPassword payload)\<rparr> else r) (users db)
                  \<and> (\<exists>r \<in> set (users db). uid r = i \<and> username r = the (p_username payload)))
            \<and> events (snd (auth_handler ''POST'' (AuthPayload payload) db)) = events db)"
proof -
  define u where "u = the (p_username payload)"
  note h = changePassword_unfold [OF assms, of db, folded u_def]
  have a: "falsy (p_password payload) \<or> falsy (p_newPassword payload) \<Longrightarrow>
            auth_handler ''POST'' (AuthPayload payload) db
              = (Inr \<lparr>statusCode = 400, body = ErrorBody ''Missing password parameters''\<rparr>, db)"
    by (simp add: h)
  have b: "auth_handler ''POST'' (AuthPayload payload) db
              = (Inr \<lparr>statusCode = 401, body = ErrorBody ''Invalid credentials''\<rparr>, db)"
    if "\<not> falsy (p_password payload)" "\<not> falsy (p_newPassword payload)"
      "stored_password u db \<noteq> p_password payload"
    using that by (cases "select_user u db") (simp_all add: h stored_password_def)
  have c: "fst (auth_handler ''POST'' (AuthPayload payload) db)
              = Inr \<lparr>statusCode = 200, body = StatusBody ''ok''\<rparr>
            \<and> stored_password u (snd (auth_handler ''POST'' (AuthPayload payload) db))
              = p_newPassword payload
            \<and> (\<exists>i. users (snd (auth_handler ''POST'' (AuthPayload payload) db))
                  = map (\<lambda>r. if uid r = i then r\<lparr>password := the (p_newPassword payload)\<rparr> else r) (users db)
                  \<and> (\<exists>r \<in> set (users db). uid r = i \<and> username r = u))
            \<and> events (snd (auth_handler ''POST'' (AuthPayload payload) db)) = events db"
    if f: "\<not> falsy (p_password payload)" "\<not> falsy (p_newPassword payload)"
      and sp: "stored_password u db = p_password payload"
  proof -
    obtain np where np: "p_newPassword payload = Some np"
      using f(2) by (cases "p_newPassword payload") (simp_all add: falsy_def)
    obtain r rs where r: "select_user u db = r # rs" "Some (password r) = p_password payload"
      using sp f(1) by (cases "select_user u db") (auto simp: stored_password_def falsy_def)
    have res: "auth_handler ''POST'' (AuthPayload payload) db
             = (Inr \<lparr>statusCode = 200, body = StatusBody ''ok''\<rparr>, update_password (uid r) np db)"
      using f r by (simp add: h np)
    have "r \<in> set (select_user u db)" using r by simp
    then have rin: "r \<in> set (users db)" "username r = u" by (simp_all add: select_user_def)
    have sp': "stored_password u (update_password (uid r) np db) = Some np"
      by (simp add: stored_password_def select_user_update_password r)
    show ?thesis
      using rin sp' by (auto simp: res np update_password_def)
  qed
  show ?thesis using a b c unfolding u_def by blast
qed


theorem changePassword_cases_witness:
  "auth_handler ''POST''
     (AuthPayload \<lparr>action = Some ''changePassword'', p_username = Some ''alice'',
                   p_password = Some ''secret123'', p_newPassword = None\<rparr>) alice_database
     = (Inr \<lparr>statusCode = 400, body = ErrorBody ''Missing password parameters''\<rparr>, alice_database)
   \<and> auth_handler ''POST''
     (AuthPayload \<lparr>action = Some ''changePassword'', p_username = Some ''alice'',
                   p_password = Some ''wrong'', p_newPassword = Some ''pw2''\<rparr>) alice_database
     = (Inr \<lparr>statusCode = 401, body = ErrorBody ''Invalid credentials''\<rparr>, alice_database)
   \<and> stored_password ''alice'' (snd (auth_handler ''POST''
     (AuthPayload \<lparr>action = Some ''changePassword'', p_username = Some ''alice'',
                   p_password = Some ''secret123'', p_newPassword = Some ''pw2''\<rparr>) alice_database))
     = Some ''pw2''"
proof -
  have sp: "stored_password ''alice'' alice_database = Some ''secret123''"
    by (simp add: stored_password_def select_user_def alice_database_def)
  have 1: "auth_handler ''POST''
     (AuthPayload \<lparr>action = Some ''changePassword'', p_username = Some ''alice'',
                   p_password = Some ''secret123'', p_newPassword = None\<rparr>) alice_database
     = (Inr \<lparr>statusCode = 400, body = ErrorBody ''Missing password parameters''\<rparr>, alice_database)"
    using changePassword_cases [of "\<lparr>action = Some ''changePassword'', p_username = Some ''alice'',
                   p_password = Some ''secret123'', p_newPassword = None\<rparr>" alice_database]
    by (simp add: falsy_def)
  have 2: "auth_handler ''POST''
     (AuthPayload \<lparr>action = Some ''changePassword'', p_username = Some ''alice'',
                   p_password = Some ''wrong'', p_newPassword = Some ''pw2''\<rparr>) alice_database
     = (Inr \<lparr>statusCode = 401, body = ErrorBody ''Invalid credentials''\<rparr>, alice_database)"
    using changePassword_cases [of "\<lparr>action = Some ''changePassword'', p_username = Some ''alice'',
                   p_password = Some ''wrong'', p_newPassword = Some ''pw2''\<rparr>" alice_database]
    by (simp add: falsy_def sp)
  have 3: "stored_password ''alice'' (snd (auth_handler ''POST''
     (AuthPayload \<lparr>action = Some ''changePassword'', p_username = Some ''alice'',
                   p_password = Some ''secret123'', p_newPassword = Some ''pw2''\<rparr>) alice_database))
     = Some ''pw2''"
    using changePassword_cases [of "\<lparr>action = Some ''changePassword'', p_username = Some ''alice'',
                   p_password = Some ''secret123'', p_newPassword = Some ''pw2''\<rparr>" alice_database]
    by (simp add: falsy_def sp)
  show ?thesis using 1 2 3 by simp
qed

lemma insert_event_appends:
  "insert_event date_in i k e db = Inr db' \<Longrightarrow>
     users db' = users db \<and> (\<exists>new. events db' = events db @ new)"
  by (auto simp: insert_event_def split: option.splits)

lemma insert_list_appends:
  "users (snd (insert_list date_in i k evs db)) = users db
   \<and> (\<exists>new. events (snd (insert_list date_in i k evs db)) = events db @ new)"
proof (induction evs arbitrary: db)
  case Nil
  then show ?case by simp
next
  case (Cons ev rest)
  show ?case
  proof (cases ev)
    case ItemNull
    then show ?thesis by simp
  next
    case (Item e)
    show ?thesis
    proof (cases "insert_event date_in i k e db")
      case (Inl err)
      then show ?thesis using Item by simp
    next
      case (Inr db')
      note a = insert_event_appends [OF Inr]
      from Cons.IH [of db'] a show ?thesis using Item Inr by auto
    qed
  qed
qed

lemma insert_entries_appends:
  "users (snd (insert_entries date_in i entries db)) = users db
   \<and> (\<exists>new. events (snd (insert_entries date_in i entries db)) = events db @ new)"
proof (induction entries arbitrary: db)
  case Nil
  then show ?case by simp
next
  case (Cons entry rest)
  obtain k l where entry: "entry = (k, l)" by (cases entry)
  show ?case
  proof (cases l)
    case NotIterable
    then show ?thesis using entry by simp
  next
    case (Items evs)
    obtain err db' where r: "insert_list date_in i k evs db = (err, db')"
      by (cases "insert_list date_in i k evs db")
    have a: "users db' = users db" "\<exists>new. events db' = events db @ new"
      using insert_list_appends [of date_in i k evs db] r by simp_all
    show ?thesis
    proof (cases err)
      case None
      from Cons.IH [of db'] a show ?thesis using entry Items r None by auto
    next
      case (Some e)
      then show ?thesis using entry Items r a by simp
    qed
  qed
qed

text \<open>
  C9. A \<open>POST /events\<close> whose body has a user and \<open>events\<close> equal to \<open>null\<close> passes the
  validation, and the handler answers 500 with the thrown \<open>TypeError\<close>, not 400. The throw
  comes after the delete step: the events stored for that user are gone, those of the other
  users stay. For a payload whose \<open>events\<close> is an object the delete step also comes before
  anything that can throw: whatever the answer, the stored events are those of the other
  users followed by the rows inserted by this request.
\<close>

theorem post_null_events_deletes_then_throws:
  assumes "\<not> falsy user"
  shows "events_handler date_in date_out
           \<lparr>httpMethod = ''POST'', query_user = q, parsed_body = Body user EvNull\<rparr> db
         = (\<lparr>statusCode = 500, body = Thrown TypeError\<rparr>,
            delete_events_of (fst (get_or_create_user (the user) db))
              (snd (get_or_create_user (the user) db)))
       \<and> events (snd (events_handler date_in date_out
           \<lparr>httpMethod = ''POST'', query_user = q, parsed_body = Body user EvNull\<rparr> db))
         = filter (\<lambda>r. user_id r \<noteq> fst (get_or_create_user (the user) db)) (events db)
       \<and> (\<exists>new. events (snd (events_handler date_in date_out
             \<lparr>httpMethod = ''POST'', query_user = q, parsed_body = Body user (EvObject entries)\<rparr> db))
           = filter (\<lambda>r. user_id r \<noteq> fst (get_or_create_user (the user) db)) (events db) @ new)"
proof -
  obtain i db1 where g: "get_or_create_user (the user) db = (i, db1)"
    by (cases "get_or_create_user (the user) db")
  have e1: "events db1 = events db"
    using g by (auto simp: get_or_create_user_def split: list.splits)
  have a: "events_handler date_in date_out
           \<lparr>httpMethod = ''POST'', query_user = q, parsed_body = Body user EvNull\<rparr> db
         = (\<lparr>statusCode = 500, body = Thrown TypeError\<rparr>, delete_events_of i db1)"
    using assms by (simp add: events_handler_def post_events_def g Let_def)
  have b: "events (delete_events_of i db1) = filter (\<lambda>r. user_id r \<noteq> i) (events db)"
    by (simp add: delete_events_of_def e1)
  obtain err db3 where r: "insert_entries date_in i entries (delete_events_of i db1) = (err, db3)"
    by (cases "insert_entries date_in i entries (delete_events_of i db1)")
  have "\<exists>new. events db3 = events (delete_events_of i db1) @ new"
    using insert_entries_appends [of date_in i entries "delete_events_of i db1"] r by simp
  moreover have "snd (events_handler date_in date_out
             \<lparr>httpMethod = ''POST'', query_user = q, parsed_body = Body user (EvObject entries)\<rparr> db) = db3"
    using assms by (cases err) (simp_all add: events_handler_def post_events_def g Let_def r)
  ultimately have c: "\<exists>new. events (snd (events_handler date_in date_out
             \<lparr>httpMethod = ''POST'', query_user = q, parsed_body = Body user (EvObject entries)\<rparr> db))
           = filter (\<lambda>r. user_id r \<noteq> i) (events db) @ new"
    by (simp add: b)
  show ?thesis using a b c by (simp add: g)
qed

theorem post_null_events_deletes_then_throws_witness:
  "events bob_database \<noteq> []
   \<and> fst (events_handler iso_date_in utc_midnight
           \<lparr>httpMethod = ''POST'', query_user = None, parsed_body = Body (Some ''bob'') EvNull\<rparr> bob_database)
       = \<lparr>statusCode = 500, body = Thrown TypeError\<rparr>
   \<and> events (snd (events_handler iso_date_in utc_midnight
           \<lparr>httpMethod = ''POST'', query_user = None, parsed_body = Body (Some ''bob'') EvNull\<rparr> bob_database))
       = []"
proof -
  have f: "\<not> falsy (Some ''bob'')" by (simp add: falsy_def)
  have g: "fst (get_or_create_user ''bob'' bob_database) = 2"
    by (simp add: get_or_create_user_def select_user_def bob_database_def)
  have e: "events bob_database \<noteq> []" by (simp add: bob_database_def)
  have d: "filter (\<lambda>r. user_id r \<noteq> 2) (events bob_database) = []"
    by (simp add: bob_database_def)
  note t = post_null_events_deletes_then_throws [OF f, of iso_date_in utc_midnight None bob_database Nil]
  from t have 1: "fst (events_handler iso_date_in utc_midnight
           \<lparr>httpMethod = ''POST'', query_user = None, parsed_body = Body (Some ''bob'') EvNull\<rparr> bob_database)
       = \<lparr>statusCode = 500, body = Thrown TypeError\<rparr>"
    by simp
  from t [simplified option.sel] have 2: "events (snd (events_handler iso_date_in utc_midnight
           \<lparr>httpMethod = ''POST'', query_user = None, parsed_body = Body (Some ''bob'') EvNull\<rparr> bob_database))
       = filter (\<lambda>r. user_id r \<noteq> 2) (events bob_database)"
    unfolding g [symmetric] by (rule conjunct1 [OF conjunct2])
  show ?thesis using e 1 2 d by simp
qed

lemma iso_date_in_2025_08_18: "iso_date_in ''2025-08-18'' = Some 20318"
  by (simp add: iso_date_in_def digit_value_def Let_def civil_eval)

lemma toISOString_utc_midnight:
  "toISOString (Some 1755475200000) = Inr ''2025-08-18T00:00:00.000Z''"
  by (rule trans [OF toISOString_civil [where y = 2025 and m = 7 and d = 18]])
    (simp_all add: Day_def msPerDay_def civil_eval string_eval HourFromTime_def MinFromTime_def
      SecFromTime_def msFromTime_def replicate_small)

lemma post_bob_events:
  "events_handler iso_date_in date_out
     \<lparr>httpMethod = ''POST'', query_user = None,
        parsed_body = Body (Some ''bob'') (payload_of bob_events)\<rparr> alice_database
   = (\<lparr>statusCode = 200, body = StatusBody ''saved''\<rparr>,
      \<lparr>users = [\<lparr>uid = 1, username = ''alice'', password = ''secret123''\<rparr>,
                \<lparr>uid = 2, username = ''bob'', password = []\<rparr>],
        events = [\<lparr>eid = 1, user_id = 2, row_date = 20318, row_title = ''X'',
                   start_time = ''09:00'', end_time = ''10:00'', all_day = False,
                   row_color = Some ''#3EA6FF''\<rparr>],
        next_uid = 3, next_eid = 2\<rparr>)"
  by (simp add: events_handler_def post_events_def payload_of_def bob_events_def falsy_def
      get_or_create_user_def select_user_def alice_database_def delete_events_of_def Let_def
      insert_event_def iso_date_in_2025_08_18 color_or_default_def)

lemma post_bob_color_events:
  "events_handler iso_date_in date_out
     \<lparr>httpMethod = ''POST'', query_user = None,
        parsed_body = Body (Some ''bob'') (payload_of bob_color_events)\<rparr> alice_database
   = (\<lparr>statusCode = 200, body = StatusBody ''saved''\<rparr>,
      \<lparr>users = [\<lparr>uid = 1, username = ''alice'', password = ''secret123''\<rparr>,
                \<lparr>uid = 2, username = ''bob'', password = []\<rparr>],
        events = [\<lparr>eid = 1, user_id = 2, row_date = 20318, row_title = ''X'',
                   start_time = ''09:00'', end_time = ''10:00'', all_day = False,
                   row_color = Some ''#3EA6FF''\<rparr>,
                  \<lparr>eid = 2, user_id = 2, row_date = 20318, row_title = ''Y'',
                   start_time = ''11:00'', end_time = ''12:00'', all_day = False,
                   row_color = Some ''#FF5722''\<rparr>],
        next_uid = 3, next_eid = 3\<rparr>)"
  by (simp add: events_handler_def post_events_def payload_of_def bob_color_events_def falsy_def
      get_or_create_user_def select_user_def alice_database_def delete_events_of_def Let_def
      insert_event_def iso_date_in_2025_08_18 color_or_default_def)

text \<open>
  C8. The scenario: on a database that has only the user \<open>alice\<close>, \<open>POST /events\<close>
  for \<open>bob\<close> with one event on 2025-08-18 without a color answers 200 with the status
  saved and creates the record of \<open>bob\<close> with an empty password. The database stores the
  day, and the driver gives it back as the local midnight of the host; the handler of
  \<open>GET /events\<close> makes the date-key from \<open>toISOString\<close>, the UTC date of that time. On
  a host one hour east of UTC the event comes back under 2025-08-17, the day before its
  date-key, with the default color. On a host in UTC the date-key comes back as sent: there
  an event without a color comes back with the default color, and an event with a color
  comes back with its color.
\<close>

theorem post_then_get_east_of_utc:
  "fst (events_handler iso_date_in (day_start (fixed_zone 3600000))
         \<lparr>httpMethod = ''POST'', query_user = None,
            parsed_body = Body (Some ''bob'') (payload_of bob_events)\<rparr> alice_database)
     = \<lparr>statusCode = 200, body = StatusBody ''saved''\<rparr>
   \<and> users (snd (events_handler iso_date_in (day_start (fixed_zone 3600000))
         \<lparr>httpMethod = ''POST'', query_user = None,
            parsed_body = Body (Some ''bob'') (payload_of bob_events)\<rparr> alice_database))
     = [\<lparr>uid = 1, username = ''alice'', password = ''secret123''\<rparr>,
        \<lparr>uid = 2, username = ''bob'', password = []\<rparr>]
   \<and> fst (events_handler iso_date_in (day_start (fixed_zone 3600000))
         \<lparr>httpMethod = ''GET'', query_user = Some ''bob'', parsed_body = BodyNull\<rparr>
         (snd (events_handler iso_date_in (day_start (fixed_zone 3600000))
           \<lparr>httpMethod = ''POST'', query_user = None,
              parsed_body = Body (Some ''bob'') (payload_of bob_events)\<rparr> alice_database)))
     = \<lparr>statusCode = 200,
        body = EventsBody
          [(''2025-08-17'',
            [\<lparr>j_title = Some ''X'', j_start = Some ''09:00'', j_end = Some ''10:00'',
              j_allDay = Some False, j_color = Some ''#3EA6FF''\<rparr>])]\<rparr>
   \<and> fst (events_handler iso_date_in utc_midnight
         \<lparr>httpMethod = ''GET'', query_user = Some ''bob'', parsed_body = BodyNull\<rparr>
         (snd (events_handler iso_date_in utc_midnight
           \<lparr>httpMethod = ''POST'', query_user = None,
              parsed_body = Body (Some ''bob'') (payload_of bob_color_events)\<rparr> alice_database)))
     = \<lparr>statusCode = 200,
        body = EventsBody
          [(''2025-08-18'',
            [\<lparr>j_title = Some ''X'', j_start = Some ''09:00'', j_end = Some ''10:00'',
              j_allDay = Some False, j_color = Some ''#3EA6FF''\<rparr>,
             \<lparr>j_title = Some ''Y'', j_start = Some ''11:00'', j_end = Some ''12:00'',
              j_allDay = Some False, j_color = Some ''#FF5722''\<rparr>])]\<rparr>"
proof -
  have east: "day_start (fixed_zone 3600000) 20318 = Some 1755471600000"
    by (simp add: day_start_fixed TimeClip_def msPerDay_def)
  have utc: "utc_midnight 20318 = Some 1755475200000"
    by (simp add: utc_midnight_def TimeClip_def msPerDay_def)
  show ?thesis
    unfolding post_bob_events post_bob_color_events
    by (simp add: events_handler_def get_events_def falsy_def select_user_def east utc
        fallback_iso_0 toISOString_utc_midnight row_event_def push_event_def Let_def)
qed

end
